theory Spec2Isabelle
  imports Main "HOL-Library.AList" "HOL-Library.Monad_Syntax" "HOL-Library.Multiset"
begin

section \<open>Python strings and the built-ins the lyric code relies on\<close>

text \<open>
  A Python \<open>str\<close> is a sequence of Unicode code points, so a string is modelled as a list
  of code points (natural numbers). ASCII literals are written through \<open>ascii\<close>; text
  outside ASCII is written as its code points.
\<close>

type_synonym uchar = nat
type_synonym ustring = "nat list"

definition ascii :: "string \<Rightarrow> ustring" where
  "ascii s = map of_char s"

abbreviation (input) NEWLINE :: uchar where "NEWLINE \<equiv> 10"
abbreviation (input) PLUS :: uchar where "PLUS \<equiv> 43"
abbreviation (input) MINUS :: uchar where "MINUS \<equiv> 45"
abbreviation (input) DOT :: uchar where "DOT \<equiv> 46"
abbreviation (input) ZERO :: uchar where "ZERO \<equiv> 48"
abbreviation (input) COLON :: uchar where "COLON \<equiv> 58"
abbreviation (input) LBRACKET :: uchar where "LBRACKET \<equiv> 91"
abbreviation (input) RBRACKET :: uchar where "RBRACKET \<equiv> 93"
abbreviation (input) UNDERSCORE :: uchar where "UNDERSCORE \<equiv> 95"

text \<open>
  \<open>str.isspace\<close>: the code points that \<open>str.strip()\<close> removes (Unicode white space,
  including the ASCII separators U+001C..U+001F).
\<close>

definition space_chars :: "uchar list" where
  "space_chars = [9, 10, 11, 12, 13, 28, 29, 30, 31, 32, 133, 160, 5760,
     8192, 8193, 8194, 8195, 8196, 8197, 8198, 8199, 8200, 8201, 8202,
     8232, 8233, 8239, 8287, 12288]"

definition is_space :: "uchar \<Rightarrow> bool" where
  "is_space c = (c \<in> set space_chars)"

text \<open>
  The white space that \<open>int()\<close> skips around a literal: the same set without
  U+001C..U+001F, which \<open>int()\<close> rejects.
\<close>

definition is_int_space :: "uchar \<Rightarrow> bool" where
  "is_int_space c = (is_space c \<and> \<not> (28 \<le> c \<and> c \<le> 31))"

text \<open>
  Unicode decimal digits (category Nd): both the pattern class \<open>\d\<close> of a \<open>str\<close> pattern
  and \<open>int()\<close> accept them. They come in blocks of ten consecutive code points with the
  values 0..9; \<open>decimal_zeros\<close> lists the first code point of each block (Unicode 14).
\<close>

definition decimal_zeros :: "uchar list" where
  "decimal_zeros = [48, 1632, 1776, 1984, 2406, 2534, 2662, 2790, 2918, 3046, 3174, 3302,
     3430, 3558, 3664, 3792, 3872, 4160, 4240, 6112, 6160, 6470, 6608, 6784, 6800, 6992,
     7088, 7232, 7248, 42528, 43216, 43264, 43472, 43504, 43600, 44016, 65296, 66720,
     68912, 69734, 69872, 69942, 70096, 70384, 70736, 70864, 71248, 71360, 71472, 71904,
     72016, 72784, 73040, 73120, 92768, 92864, 93008, 120782, 120792, 120802, 120812,
     120822, 123200, 123632, 125264, 130032]"

definition decimal_value :: "uchar \<Rightarrow> nat option" where
  "decimal_value c = map_option (\<lambda>z. c - z) (find (\<lambda>z. z \<le> c \<and> c < z + 10) decimal_zeros)"

definition is_decimal :: "uchar \<Rightarrow> bool" where
  "is_decimal c = (decimal_value c \<noteq> None)"

definition digit_val :: "uchar \<Rightarrow> nat" where
  "digit_val c = (case decimal_value c of Some d \<Rightarrow> d | None \<Rightarrow> 0)"

text \<open>The value of a digit string, most significant digit first.\<close>

definition digits_value :: "ustring \<Rightarrow> int" where
  "digits_value ds = foldl (\<lambda>v c. 10 * v + int (digit_val c)) 0 ds"

text \<open>\<open>s.strip(chars)\<close> and \<open>s.strip()\<close>: drop the matching characters at both ends.\<close>

definition strip_set :: "(uchar \<Rightarrow> bool) \<Rightarrow> ustring \<Rightarrow> ustring" where
  "strip_set p s = rev (dropWhile p (rev (dropWhile p s)))"

definition py_strip :: "ustring \<Rightarrow> ustring" where
  "py_strip s = strip_set is_space s"

text \<open>
  \<open>s.split(c, 1)\<close>: the list of one string when \<open>c\<close> does not occur, else the text before
  the first \<open>c\<close> and the text after it.
\<close>

definition split1 :: "uchar \<Rightarrow> ustring \<Rightarrow> ustring list" where
  "split1 c s =
     (case dropWhile (\<lambda>x. x \<noteq> c) s of
        [] \<Rightarrow> [s]
      | _ # after \<Rightarrow> [takeWhile (\<lambda>x. x \<noteq> c) s, after])"

text \<open>\<open>s.split(c)\<close>: all the pieces between occurrences of \<open>c\<close>; never an empty list.\<close>

fun py_split :: "uchar \<Rightarrow> ustring \<Rightarrow> ustring list" where
  "py_split c [] = [[]]"
| "py_split c (x # xs) =
     (if x = c then [] # py_split c xs
      else (case py_split c xs of
              [] \<Rightarrow> [[x]]
            | y # ys \<Rightarrow> (x # y) # ys))"

text \<open>
  \<open>int(s)\<close> for a string, base 10. The literal is: optional white space, an optional sign,
  decimal digits with single underscores allowed between digits, optional white space.
  \<open>digit_body\<close> is the check of the digit part. The parameter \<open>lim\<close> is the interpreter's
  \<open>sys.int_max_str_digits\<close> (0: no limit, also the behaviour before the limit existed;
  4300 by default since CPython 3.11): a literal of more than 640 digits that exceeds a
  positive limit is refused with ValueError. \<open>None\<close> is the ValueError that \<open>int\<close> raises.
\<close>

fun digit_body :: "ustring \<Rightarrow> bool" where
  "digit_body [] = False"
| "digit_body [c] = is_decimal c"
| "digit_body (c # u # cs) =
     (is_decimal c \<and> (if u = UNDERSCORE then digit_body cs else digit_body (u # cs)))"

definition digits_allowed :: "nat \<Rightarrow> nat \<Rightarrow> bool" where
  "digits_allowed lim n = (\<not> (640 < n \<and> 0 < lim \<and> lim < n))"

definition py_int :: "nat \<Rightarrow> ustring \<Rightarrow> int option" where
  "py_int lim s =
     (let t = strip_set is_int_space s;
          signed = (t \<noteq> [] \<and> (hd t = MINUS \<or> hd t = PLUS));
          body = (if signed then tl t else t);
          ds = filter (\<lambda>c. c \<noteq> UNDERSCORE) body
      in if \<not> digit_body body then None
         else if \<not> digits_allowed lim (length ds) then None
         else Some (if signed \<and> hd t = MINUS then - digits_value ds else digits_value ds))"

text \<open>
  The only exception of this program is \<open>ValueError\<close>; it carries its message.
\<close>

datatype error = ValueError ustring

text \<open>The text of an exception, as \<open>str(e)\<close> and an f-string give it.\<close>

fun str_of_error :: "error \<Rightarrow> ustring" where
  "str_of_error (ValueError msg) = msg"

text \<open>
  \<open>f"{n:0wd}"\<close>: the decimal digits of \<open>n\<close>, padded with zeros on the left to at least
  \<open>w\<close> characters; a minus sign comes first and counts in the width (\<open>padded\<close>). The
  conversion of the number to its digits comes first, and the interpreter refuses it with
  ValueError under the same limit as \<open>int\<close>: when the number has more than 640 digits and
  more than a positive \<open>sys.int_max_str_digits\<close>.
\<close>

function dec_digits :: "nat \<Rightarrow> ustring" where
  "dec_digits n = (if n < 10 then [ZERO + n] else dec_digits (n div 10) @ [ZERO + n mod 10])"
  by pat_completeness auto
termination
  by (relation "measure id") auto

declare dec_digits.simps [simp del]

definition int_str_limit_msg :: "nat \<Rightarrow> ustring" where
  "int_str_limit_msg lim =
     ascii ''Exceeds the limit ('' @ dec_digits lim
     @ ascii '' digits) for integer string conversion; use sys.set_int_max_str_digits() to increase the limit''"

definition padded :: "nat \<Rightarrow> int \<Rightarrow> ustring" where
  "padded w n =
     (let ds = dec_digits (nat \<bar>n\<bar>)
      in if n < 0 then MINUS # replicate (w - 1 - length ds) ZERO @ ds
         else replicate (w - length ds) ZERO @ ds)"

definition format_d :: "nat \<Rightarrow> nat \<Rightarrow> int \<Rightarrow> error + ustring" where
  "format_d lim w n =
     (if digits_allowed lim (length (dec_digits (nat \<bar>n\<bar>)))
      then Inr (padded w n)
      else Inl (ValueError (int_str_limit_msg lim)))"

section \<open>LRCParser\<close>

text \<open>
  \<open>parse_lrc_time\<close>. Inside the \<open>try\<close>, the unpacking of \<open>split(':', 1)\<close> raises
  ValueError when there is no colon and each \<open>int\<close> raises ValueError on a bad literal;
  the handler turns every one of them into \<open>ValueError\<close> with the message
  U+65E0 U+6548 U+7684 U+65F6 U+95F4 U+683C U+5F0F \<open>": "\<close> followed by \<open>time_str\<close>, which
  by then is the text with the brackets stripped.
\<close>

definition invalid_format_msg :: ustring where
  "invalid_format_msg = [26080, 25928, 30340, 26102, 38388, 26684, 24335, 58, 32]"

definition parse_lrc_time_body :: "nat \<Rightarrow> ustring \<Rightarrow> int option" where
  "parse_lrc_time_body lim time_str =
     (case split1 COLON time_str of
        [minutes, rest] \<Rightarrow>
          (case (if DOT \<in> set rest then
                   (case split1 DOT rest of
                      [seconds, milliseconds] \<Rightarrow>
                        (if length milliseconds = 2
                         then map_option (\<lambda>v. (seconds, v * 10)) (py_int lim milliseconds)
                         else map_option (\<lambda>v. (seconds, v)) (py_int lim (take 3 milliseconds)))
                    | _ \<Rightarrow> None)
                 else Some (rest, 0)) of
             None \<Rightarrow> None
           | Some (seconds, milliseconds) \<Rightarrow>
               (case py_int lim minutes of
                  None \<Rightarrow> None
                | Some m \<Rightarrow>
                    (case py_int lim seconds of
                       None \<Rightarrow> None
                     | Some s \<Rightarrow> Some (m * 60000 + s * 1000 + milliseconds))))
      | _ \<Rightarrow> None)"

definition parse_lrc_time :: "nat \<Rightarrow> ustring \<Rightarrow> error + int" where
  "parse_lrc_time lim time_str0 =
     (let time_str = strip_set (\<lambda>c. c = LBRACKET \<or> c = RBRACKET) time_str0
      in case parse_lrc_time_body lim time_str of
           Some ms \<Rightarrow> Inr ms
         | None \<Rightarrow> Inl (ValueError (invalid_format_msg @ time_str)))"

text \<open>
  \<open>format_lrc_time\<close>: the three numbers are converted in the order in which the f-string
  names them; a conversion that is refused raises out of the function.
\<close>

definition format_lrc_time :: "nat \<Rightarrow> int \<Rightarrow> error + ustring" where
  "format_lrc_time lim milliseconds =
     (let minutes = milliseconds div 60000;
          seconds = (milliseconds mod 60000) div 1000;
          millis = milliseconds mod 1000
      in case format_d lim 2 minutes of
           Inl e \<Rightarrow> Inl e
         | Inr mm \<Rightarrow>
             (case format_d lim 2 seconds of
                Inl e \<Rightarrow> Inl e
              | Inr ss \<Rightarrow>
                  (case format_d lim 3 millis of
                     Inl e \<Rightarrow> Inl e
                   | Inr fff \<Rightarrow>
                       Inr ([LBRACKET] @ mm @ [COLON] @ ss @ [DOT] @ fff @ [RBRACKET]))))"

text \<open>
  The tag pattern \<open>\[(\d+:\d+\.\d+)\]\<close>, matched at the start of a string: the result is
  group 1 and the text after the match. A \<open>\d+\<close> takes the longest run of digits; no
  shorter run can match, since the next character of the pattern is never a digit.
\<close>

fun expect :: "uchar \<Rightarrow> ustring \<Rightarrow> ustring option" where
  "expect c [] = None"
| "expect c (x # xs) = (if x = c then Some xs else None)"

definition digits1 :: "ustring \<Rightarrow> (ustring \<times> ustring) option" where
  "digits1 s =
     (if takeWhile is_decimal s = [] then None
      else Some (takeWhile is_decimal s, dropWhile is_decimal s))"

definition match_tag :: "ustring \<Rightarrow> (ustring \<times> ustring) option" where
  "match_tag s =
     do {
       s1 \<leftarrow> expect LBRACKET s;
       (d1, s2) \<leftarrow> digits1 s1;
       s3 \<leftarrow> expect COLON s2;
       (d2, s4) \<leftarrow> digits1 s3;
       s5 \<leftarrow> expect DOT s4;
       (d3, s6) \<leftarrow> digits1 s5;
       s7 \<leftarrow> expect RBRACKET s6;
       Some (d1 @ [COLON] @ d2 @ [DOT] @ d3, s7)
     }"

lemma expect_Some: "expect c s = Some r \<longleftrightarrow> s = c # r"
  by (cases s) auto

lemma digits1_Some:
  "digits1 s = Some (d, r) \<longleftrightarrow>
     d \<noteq> [] \<and> d = takeWhile is_decimal s \<and> r = dropWhile is_decimal s"
  by (auto simp: digits1_def)

lemma digits1_length: "digits1 s = Some (d, r) \<Longrightarrow> length r < length s"
proof -
  assume h: "digits1 s = Some (d, r)"
  then have "d \<noteq> []" and "s = d @ r"
    by (auto simp: digits1_Some)
  then show ?thesis by (cases d) simp_all
qed

lemma match_tag_length: "match_tag s = Some (g, r) \<Longrightarrow> length r < length s"
  unfolding match_tag_def
  by (auto simp: expect_Some split: bind_splits dest!: digits1_length)

text \<open>
  \<open>re.findall(pattern, line)\<close>: scan from the left; at a match, keep group 1 and go on
  after the match, else move one character on. \<open>re.sub(pattern, '', line)\<close> scans the same
  way and keeps the characters that belong to no match.
\<close>

function findall_tags :: "ustring \<Rightarrow> ustring list" where
  "findall_tags [] = []"
| "findall_tags (c # cs) =
     (case match_tag (c # cs) of
        Some (g, r) \<Rightarrow> g # findall_tags r
      | None \<Rightarrow> findall_tags cs)"
  by pat_completeness auto
termination
  by (relation "measure length") (auto dest: match_tag_length)

function sub_tags :: "ustring \<Rightarrow> ustring" where
  "sub_tags [] = []"
| "sub_tags (c # cs) =
     (case match_tag (c # cs) of
        Some (g, r) \<Rightarrow> sub_tags r
      | None \<Rightarrow> c # sub_tags cs)"
  by pat_completeness auto
termination
  by (relation "measure length") (auto dest: match_tag_length)

text \<open>A parsed lyric: the dictionary \<open>{'time': ..., 'content': ...}\<close>.\<close>

record lyric =
  time :: int
  content :: ustring

text \<open>
  The warning that \<open>parse_lrc_content\<close> prints for a tag that fails to decode:
  U+8B66 U+544A \<open>": "\<close> U+8DF3 U+8FC7 U+65E0 U+6548 U+65F6 U+95F4 U+6807 U+7B7E \<open>" '"\<close>,
  the tag, \<open>"': "\<close> and the text of the error.
\<close>

definition warning :: "ustring \<Rightarrow> error \<Rightarrow> ustring" where
  "warning time_match e =
     [35686, 21578, 58, 32, 36339, 36807, 26080, 25928, 26102, 38388, 26631, 31614, 32, 39]
     @ time_match @ [39, 58, 32] @ str_of_error e"

text \<open>
  The state of the parse loop is the list \<open>lyrics\<close> built so far and the lines printed so
  far. \<open>parse_matches\<close> is the inner loop over the tags of one line, \<open>parse_line\<close> the body
  of the loop over the lines.
\<close>

fun parse_matches ::
  "nat \<Rightarrow> ustring \<Rightarrow> ustring list \<Rightarrow> lyric list \<times> ustring list \<Rightarrow> lyric list \<times> ustring list"
where
  "parse_matches lim content_text [] st = st"
| "parse_matches lim content_text (time_match # rest) (lyrics, printed) =
     (case parse_lrc_time lim time_match of
        Inr time_ms \<Rightarrow>
          parse_matches lim content_text rest
            (lyrics @ [\<lparr>time = time_ms, content = content_text\<rparr>], printed)
      | Inl e \<Rightarrow>
          parse_matches lim content_text rest (lyrics, printed @ [warning time_match e]))"

definition parse_line ::
  "nat \<Rightarrow> ustring \<Rightarrow> lyric list \<times> ustring list \<Rightarrow> lyric list \<times> ustring list"
where
  "parse_line lim line0 st =
     (let line = py_strip line0
      in if line = [] then st
         else if findall_tags line \<noteq> [] then
           (if py_strip (sub_tags line) \<noteq> []
            then parse_matches lim (py_strip (sub_tags line)) (findall_tags line) st
            else st)
         else st)"

definition scan_lines :: "nat \<Rightarrow> ustring list \<Rightarrow> lyric list \<times> ustring list" where
  "scan_lines lim lines = fold (parse_line lim) lines ([], [])"

text \<open>\<open>parse_lrc_content\<close> returns the sorted lyrics and, second, the lines it printed.\<close>

definition parse_lrc_content :: "nat \<Rightarrow> ustring \<Rightarrow> lyric list \<times> ustring list" where
  "parse_lrc_content lim text =
     (if text = [] \<or> py_strip text = [] then ([], [])
      else (case scan_lines lim (py_split NEWLINE (py_strip text)) of
              (lyrics, printed) \<Rightarrow> (sort_key time lyrics, printed)))"

section \<open>LyricsMerger\<close>

text \<open>
  A dictionary keeps its keys in insertion order and a later value for a key replaces
  the earlier one in place: an association list with \<open>AList.update\<close>.
\<close>

definition to_dict :: "lyric list \<Rightarrow> (int \<times> ustring) list" where
  "to_dict lyrics = fold (\<lambda>l d. AList.update (time l) (content l) d) lyrics []"

definition dict_get :: "(int \<times> ustring) list \<Rightarrow> int \<Rightarrow> ustring \<Rightarrow> ustring" where
  "dict_get d k dflt = (case map_of d k of Some v \<Rightarrow> v | None \<Rightarrow> dflt)"

text \<open>
  The body of the merge loop. The time is formatted inside the branch that builds a line,
  so a refused conversion raises there; nothing in \<open>merge_lyrics\<close> catches it.
\<close>

definition merge_step ::
  "nat \<Rightarrow> (int \<times> ustring) list \<Rightarrow> (int \<times> ustring) list \<Rightarrow> int \<Rightarrow> ustring list
     \<Rightarrow> error + ustring list"
where
  "merge_step lim original_dict translated_dict time_ms merged_lines =
     (let original_content = dict_get original_dict time_ms [];
          translated_content = dict_get translated_dict time_ms []
      in if original_content \<noteq> [] \<and> translated_content \<noteq> [] then
           (case format_lrc_time lim time_ms of
              Inl e \<Rightarrow> Inl e
            | Inr t \<Rightarrow> Inr (merged_lines @ [t @ ascii '' '' @ original_content
                                            @ ascii '' / '' @ translated_content]))
         else if original_content \<noteq> [] then
           (case format_lrc_time lim time_ms of
              Inl e \<Rightarrow> Inl e
            | Inr t \<Rightarrow> Inr (merged_lines @ [t @ ascii '' '' @ original_content]))
         else if translated_content \<noteq> [] then
           (case format_lrc_time lim time_ms of
              Inl e \<Rightarrow> Inl e
            | Inr t \<Rightarrow> Inr (merged_lines @ [t @ ascii '' '' @ translated_content]))
         else Inr merged_lines)"

fun merge_loop ::
  "nat \<Rightarrow> (int \<times> ustring) list \<Rightarrow> (int \<times> ustring) list \<Rightarrow> int list \<Rightarrow> ustring list
     \<Rightarrow> error + ustring list"
where
  "merge_loop lim original_dict translated_dict [] merged_lines = Inr merged_lines"
| "merge_loop lim original_dict translated_dict (time_ms # rest) merged_lines =
     (case merge_step lim original_dict translated_dict time_ms merged_lines of
        Inl e \<Rightarrow> Inl e
      | Inr merged_lines' \<Rightarrow> merge_loop lim original_dict translated_dict rest merged_lines')"

text \<open>
  \<open>merge_lyrics\<close> gives the merged lines, or the exception that it raises, and, second,
  what the two parses printed before.
\<close>

definition merge_lyrics ::
  "nat \<Rightarrow> ustring \<Rightarrow> ustring \<Rightarrow> (error + ustring list) \<times> ustring list"
where
  "merge_lyrics lim original_text translated_text =
     (case parse_lrc_content lim original_text of
        (original_lyrics, printed1) \<Rightarrow>
     (case parse_lrc_content lim translated_text of
        (translated_lyrics, printed2) \<Rightarrow>
          (let original_dict = to_dict original_lyrics;
               translated_dict = to_dict translated_lyrics;
               all_times = sorted_list_of_set
                             (set (map fst original_dict) \<union> set (map fst translated_dict))
           in (merge_loop lim original_dict translated_dict all_times [],
               printed1 @ printed2))))"

section \<open>Notions used to state the properties\<close>

text \<open>
  A digit string that \<open>int\<close> accepts: decimal digits only, at least one, and no more of
  them than the interpreter's limit allows.
\<close>

definition digit_string :: "nat \<Rightarrow> ustring \<Rightarrow> bool" where
  "digit_string lim ds = (ds \<noteq> [] \<and> list_all is_decimal ds \<and> digits_allowed lim (length ds))"

text \<open>A timecode as written, with or without the enclosing brackets.\<close>

definition bracketed :: "bool \<Rightarrow> ustring \<Rightarrow> ustring" where
  "bracketed b s = (if b then [LBRACKET] @ s @ [RBRACKET] else s)"

definition ascii_digits :: "ustring \<Rightarrow> bool" where
  "ascii_digits s = list_all (\<lambda>c. 48 \<le> c \<and> c \<le> 57) s"

section \<open>Characters, stripping and splitting\<close>

lemma bind_weak_cong: "x = y \<Longrightarrow> Option.bind x f = Option.bind y f" by simp

lemma decimal_value_ascii:
  "c < 1632 \<Longrightarrow> decimal_value c = (if 48 \<le> c \<and> c \<le> 57 then Some (c - 48) else None)"
  by (simp add: decimal_value_def decimal_zeros_def)

lemma is_decimal_ascii: "c < 1632 \<Longrightarrow> is_decimal c = (48 \<le> c \<and> c \<le> 57)"
  by (simp add: is_decimal_def decimal_value_ascii)

lemma is_decimal_iff: "is_decimal c \<longleftrightarrow> (\<exists>z\<in>set decimal_zeros. z \<le> c \<and> c < z + 10)"
  by (auto simp: is_decimal_def decimal_value_def find_None_iff)

lemma not_decimal_punct:
  "\<not> is_decimal COLON" "\<not> is_decimal DOT" "\<not> is_decimal LBRACKET" "\<not> is_decimal RBRACKET"
  "\<not> is_decimal UNDERSCORE" "\<not> is_decimal PLUS" "\<not> is_decimal MINUS"
  by (simp_all add: is_decimal_ascii)

lemma space_not_decimal: "is_space c \<Longrightarrow> \<not> is_decimal c"
proof -
  have "\<forall>c\<in>set space_chars. \<not> is_decimal c"
    by (simp add: space_chars_def is_decimal_iff decimal_zeros_def)
  then show "is_space c \<Longrightarrow> \<not> is_decimal c"
    by (simp add: is_space_def)
qed

lemma strip_set_wrapped:
  assumes "s \<noteq> []" "\<not> p (hd s)" "\<not> p (last s)" "list_all p a" "list_all p b"
  shows "strip_set p (a @ s @ b) = s"
proof -
  have skip: "list_all p xs \<Longrightarrow> \<not> p y \<Longrightarrow> dropWhile p (xs @ y # ys) = y # ys" for xs y ys
    by (induction xs) simp_all
  have 1: "dropWhile p (a @ s @ b) = s @ b"
    using assms(1,2,4) skip [of a "hd s" "tl s @ b"] by (cases s) simp_all
  have 2: "dropWhile p (rev b @ rev s) = rev s"
    using assms(1,3,5) skip [of "rev b" "last s" "rev (butlast s)"]
    by (cases s rule: rev_cases) simp_all
  show ?thesis
    by (simp add: strip_set_def 1 2)
qed

lemma strip_set_id:
  "s \<noteq> [] \<Longrightarrow> \<not> p (hd s) \<Longrightarrow> \<not> p (last s) \<Longrightarrow> strip_set p s = s"
  using strip_set_wrapped [of s p "[]" "[]"] by simp

lemma split1_found: "c \<notin> set a \<Longrightarrow> split1 c (a @ c # b) = [a, b]"
proof -
  assume h: "c \<notin> set a"
  then have "dropWhile (\<lambda>x. x \<noteq> c) (a @ c # b) = c # b"
    and "takeWhile (\<lambda>x. x \<noteq> c) (a @ c # b) = a"
    by (induction a) simp_all
  then show ?thesis by (simp add: split1_def)
qed


lemma digit_body_digits: "ds \<noteq> [] \<Longrightarrow> list_all is_decimal ds \<Longrightarrow> digit_body ds"
  by (induction ds rule: digit_body.induct) (auto simp: not_decimal_punct)

lemma decimal_hd_last:
  assumes "ds \<noteq> []" "list_all is_decimal ds"
  shows "is_decimal (hd ds)" "is_decimal (last ds)"
  using assms by (auto simp: list_all_iff)

lemma py_int_digits:
  assumes "digit_string lim ds"
  shows "py_int lim ds = Some (digits_value ds)"
proof -
  from assms have ne: "ds \<noteq> []" and dec: "list_all is_decimal ds"
    and ok: "digits_allowed lim (length ds)"
    by (simp_all add: digit_string_def)
  have hd: "is_decimal (hd ds)" and last: "is_decimal (last ds)"
    using decimal_hd_last [OF ne dec] by simp_all
  have strip: "strip_set is_int_space ds = ds"
    using ne hd last space_not_decimal by (intro strip_set_id) (auto simp: is_int_space_def)
  have sign: "hd ds \<noteq> MINUS" "hd ds \<noteq> PLUS"
    using hd not_decimal_punct by auto
  have filt: "filter (\<lambda>c. c \<noteq> UNDERSCORE) ds = ds"
    using dec not_decimal_punct by (auto simp: list_all_iff filter_id_conv)
  show ?thesis
    using ne sign ok digit_body_digits [OF ne dec]
    by (simp add: py_int_def strip filt)
qed

section \<open>Decoding a timecode made of digits\<close>

lemma digit_string_take3:
  assumes "ff \<noteq> []" "list_all is_decimal ff"
  shows "digit_string lim (take 3 ff)"
  using assms by (cases ff) (auto simp: digit_string_def digits_allowed_def list_all_iff dest: in_set_takeD)

lemma digit_string_short:
  assumes "ff \<noteq> []" "list_all is_decimal ff" "length ff \<le> 640"
  shows "digit_string lim ff"
  using assms by (simp add: digit_string_def digits_allowed_def)

lemma parse_body_plain:
  assumes mm: "digit_string lim mm" and ss: "digit_string lim ss"
  shows "parse_lrc_time_body lim (mm @ [COLON] @ ss) =
           Some (digits_value mm * 60000 + digits_value ss * 1000)"
proof -
  have c: "COLON \<notin> set mm" and d: "DOT \<notin> set ss"
    using mm ss not_decimal_punct by (auto simp: digit_string_def list_all_iff)
  have "split1 COLON (mm @ [COLON] @ ss) = [mm, ss]"
    using split1_found [OF c, of ss] by simp
  then show ?thesis
    using d by (simp add: parse_lrc_time_body_def py_int_digits [OF mm] py_int_digits [OF ss])
qed

lemma parse_body_fraction:
  assumes mm: "digit_string lim mm" and ss: "digit_string lim ss"
    and ff: "ff \<noteq> []" "list_all is_decimal ff"
  shows "parse_lrc_time_body lim (mm @ [COLON] @ ss @ [DOT] @ ff) =
           Some (digits_value mm * 60000 + digits_value ss * 1000
                 + (if length ff = 2 then digits_value ff * 10 else digits_value (take 3 ff)))"
proof -
  have c: "COLON \<notin> set mm" and d: "DOT \<notin> set ss"
    using mm ss not_decimal_punct by (auto simp: digit_string_def list_all_iff)
  have s1: "split1 COLON (mm @ [COLON] @ ss @ [DOT] @ ff) = [mm, ss @ [DOT] @ ff]"
    using split1_found [OF c, of "ss @ [DOT] @ ff"] by simp
  have s2: "split1 DOT (ss @ [DOT] @ ff) = [ss, ff]"
    using split1_found [OF d, of ff] by simp
  have f3: "py_int lim (take 3 ff) = Some (digits_value (take 3 ff))"
    using py_int_digits [OF digit_string_take3 [OF ff]] .
  have f2: "length ff = 2 \<Longrightarrow> py_int lim ff = Some (digits_value ff)"
    using py_int_digits [OF digit_string_short [OF ff]] by simp
  show ?thesis
    unfolding parse_lrc_time_body_def s1
    using s2 f2 f3 by (simp add: py_int_digits [OF mm] py_int_digits [OF ss])
qed

lemma strip_brackets_digits:
  assumes "t \<noteq> []" "is_decimal (hd t)" "is_decimal (last t)"
  shows "strip_set (\<lambda>c. c = LBRACKET \<or> c = RBRACKET) (bracketed b t) = t"
proof -
  let ?p = "\<lambda>c. c = LBRACKET \<or> c = RBRACKET"
  have "\<not> ?p (hd t)" "\<not> ?p (last t)"
    using assms not_decimal_punct by auto
  then show ?thesis
    using assms(1) strip_set_wrapped [of t ?p "[LBRACKET]" "[RBRACKET]"] strip_set_id [of t ?p]
    by (simp add: bracketed_def)
qed

lemma parse_lrc_time_digits:
  assumes mm: "digit_string lim mm" and ss: "digit_string lim ss"
  shows "parse_lrc_time lim (bracketed b (mm @ [COLON] @ ss)) =
           Inr (digits_value mm * 60000 + digits_value ss * 1000)"
    and "ff \<noteq> [] \<Longrightarrow> list_all is_decimal ff \<Longrightarrow>
         parse_lrc_time lim (bracketed b (mm @ [COLON] @ ss @ [DOT] @ ff)) =
           Inr (digits_value mm * 60000 + digits_value ss * 1000
                + (if length ff = 2 then digits_value ff * 10 else digits_value (take 3 ff)))"
proof -
  have m: "mm \<noteq> []" "is_decimal (hd mm)" and s: "ss \<noteq> []" "is_decimal (last ss)"
    using mm ss by (auto simp: digit_string_def list_all_iff)
  have "strip_set (\<lambda>c. c = LBRACKET \<or> c = RBRACKET) (bracketed b (mm @ [COLON] @ ss))
          = mm @ [COLON] @ ss"
    using m s by (intro strip_brackets_digits) simp_all
  then show "parse_lrc_time lim (bracketed b (mm @ [COLON] @ ss)) =
           Inr (digits_value mm * 60000 + digits_value ss * 1000)"
    by (simp add: parse_lrc_time_def Let_def parse_body_plain [OF mm ss, simplified])
next
  assume ff: "ff \<noteq> []" "list_all is_decimal ff"
  have m: "mm \<noteq> []" "is_decimal (hd mm)"
    using mm by (auto simp: digit_string_def list_all_iff)
  have l: "is_decimal (last ff)"
    using ff by (auto simp: list_all_iff)
  have "strip_set (\<lambda>c. c = LBRACKET \<or> c = RBRACKET)
          (bracketed b (mm @ [COLON] @ ss @ [DOT] @ ff)) = mm @ [COLON] @ ss @ [DOT] @ ff"
    using m ff(1) l by (intro strip_brackets_digits) simp_all
  then show "parse_lrc_time lim (bracketed b (mm @ [COLON] @ ss @ [DOT] @ ff)) =
           Inr (digits_value mm * 60000 + digits_value ss * 1000
                + (if length ff = 2 then digits_value ff * 10 else digits_value (take 3 ff)))"
    by (simp add: parse_lrc_time_def Let_def parse_body_fraction [OF mm ss ff, simplified])
qed


text \<open>
  The instances \<open>01:30\<close>, \<open>01:30.50\<close> and \<open>[01:30.5004]\<close>, under the default limit of 4300
  digits.
\<close>

lemmas eval_chars = ascii_def is_decimal_ascii decimal_value_ascii digit_val_def
  digits_value_def digits_allowed_def


section \<open>Formatting a time and reading it back\<close>

lemma digits_value_snoc: "digits_value (ds @ [c]) = 10 * digits_value ds + int (digit_val c)"
  by (simp add: digits_value_def)

lemma digit_val_ascii: "48 \<le> c \<Longrightarrow> c \<le> 57 \<Longrightarrow> digit_val c = c - 48"
  by (simp add: digit_val_def decimal_value_ascii)

lemma dec_digits_ascii: "ascii_digits (dec_digits n)"
proof (induction n rule: dec_digits.induct)
  case (1 n)
  show ?case
  proof (cases "n < 10")
    case True
    then show ?thesis by (simp add: dec_digits.simps [of n] ascii_digits_def)
  next
    case False
    have "n mod 10 < 10" by simp
    then have "48 + n mod 10 \<le> 57" by linarith
    with False 1 show ?thesis
      by (simp add: dec_digits.simps [of n] ascii_digits_def)
  qed
qed

lemma dec_digits_nonempty: "dec_digits n \<noteq> []"
  by (simp add: dec_digits.simps [of n])

lemma dec_digits_value: "digits_value (dec_digits n) = int n"
proof (induction n rule: dec_digits.induct)
  case (1 n)
  show ?case
  proof (cases "n < 10")
    case True
    then show ?thesis
      by (simp add: dec_digits.simps [of n] digits_value_def digit_val_ascii)
  next
    case False
    have "n mod 10 < 10" by simp
    then have "digit_val (48 + n mod 10) = n mod 10"
      by (simp add: digit_val_ascii)
    moreover have "10 * int (n div 10) + int (n mod 10) = int n"
      by (simp add: zdiv_int zmod_int)
    ultimately show ?thesis
      using False 1 by (simp add: dec_digits.simps [of n] digits_value_snoc)
  qed
qed

lemma dec_digits_length: "0 < k \<Longrightarrow> n < 10 ^ k \<Longrightarrow> length (dec_digits n) \<le> k"
proof (induction n arbitrary: k rule: dec_digits.induct)
  case (1 n)
  show ?case
  proof (cases "n < 10")
    case True
    with 1(2) show ?thesis by (simp add: dec_digits.simps [of n] Suc_leI)
  next
    case False
    from 1(2) obtain j where k: "k = Suc j"
      by (cases k) auto
    have j: "0 < j"
    proof (rule ccontr)
      assume "\<not> 0 < j"
      then have "j = 0" by simp
      with 1(3) k False show False by simp
    qed
    from 1(3) k have "n div 10 < 10 ^ j"
      by (simp add: less_mult_imp_div_less mult.commute)
    with 1(1) [OF False j] have "length (dec_digits (n div 10)) \<le> j" by simp
    with False k show ?thesis by (simp add: dec_digits.simps [of n])
  qed
qed

lemma digits_value_zeros: "digits_value (replicate k ZERO @ ds) = digits_value ds"
proof -
  have "foldl (\<lambda>v c. 10 * v + int (digit_val c)) 0 (replicate k ZERO) = 0"
    by (induction k) (simp_all add: digit_val_ascii)
  then show ?thesis by (simp add: digits_value_def)
qed

lemma padded_nonneg:
  assumes "0 \<le> n"
  shows "ascii_digits (padded w n)" and "digits_value (padded w n) = n"
    and "length (padded w n) = max w (length (dec_digits (nat n)))"
    and "padded w n \<noteq> []"
  using assms dec_digits_ascii [of "nat n"] dec_digits_nonempty [of "nat n"]
  by (auto simp: padded_def Let_def ascii_digits_def digits_value_zeros dec_digits_value list_all_iff)

lemma ascii_digits_decimal: "ascii_digits s \<Longrightarrow> list_all is_decimal s"
  by (auto simp: ascii_digits_def list_all_iff is_decimal_ascii)

lemma padded_small:
  assumes "0 \<le> n" "n < 10 ^ w" "0 < w"
  shows "length (padded w n) = w"
proof -
  have "nat n < 10 ^ w"
    using assms(1,2) by (simp add: nat_less_iff)
  then have "length (dec_digits (nat n)) \<le> w"
    using dec_digits_length [OF assms(3)] by simp
  then show ?thesis
    using padded_nonneg(3) [OF assms(1), of w] by simp
qed

text \<open>
  The text that \<open>format_lrc_time\<close> builds when no conversion is refused, and the condition
  under which none is: the seconds and the milliseconds have at most three digits, so only
  the minutes can exceed the limit.
\<close>

definition time_text :: "int \<Rightarrow> ustring" where
  "time_text ms =
     [LBRACKET] @ padded 2 (ms div 60000) @ [COLON] @ padded 2 (ms mod 60000 div 1000)
     @ [DOT] @ padded 3 (ms mod 1000) @ [RBRACKET]"

definition formattable :: "nat \<Rightarrow> int \<Rightarrow> bool" where
  "formattable lim ms = digits_allowed lim (length (dec_digits (nat \<bar>ms div 60000\<bar>)))"

lemma small_allowed: "n < 1000 \<Longrightarrow> digits_allowed lim (length (dec_digits n))"
proof -
  assume "n < 1000"
  then have "n < 10 ^ 3" by simp
  then have "length (dec_digits n) \<le> 3"
    by (intro dec_digits_length) simp_all
  then show ?thesis by (simp add: digits_allowed_def)
qed

lemma format_d_small: "0 \<le> n \<Longrightarrow> n < 1000 \<Longrightarrow> format_d lim w n = Inr (padded w n)"
  using small_allowed [of "nat n" lim] by (simp add: format_d_def)

lemma format_lrc_time_eq:
  "format_lrc_time lim ms =
     (if formattable lim ms then Inr (time_text ms)
      else Inl (ValueError (int_str_limit_msg lim)))"
proof -
  have s: "0 \<le> ms mod 60000 div 1000" and f: "0 \<le> ms mod 1000"
    by (simp_all add: pos_imp_zdiv_nonneg_iff)
  have "ms mod 60000 < 60000" by simp
  then have s2: "ms mod 60000 div 1000 < 1000" by linarith
  have f2: "ms mod 1000 < 1000" by simp
  show ?thesis
    unfolding format_lrc_time_def Let_def format_d_small [OF s s2] format_d_small [OF f f2]
    by (simp add: format_d_def formattable_def time_text_def)
qed

lemma time_text_shape:
  assumes "0 \<le> ms"
  defines "mm \<equiv> padded 2 (ms div 60000)"
    and "ss \<equiv> padded 2 (ms mod 60000 div 1000)"
    and "fff \<equiv> padded 3 (ms mod 1000)"
  shows "time_text ms = bracketed True (mm @ [COLON] @ ss @ [DOT] @ fff)"
    and "ascii_digits mm" "2 \<le> length mm" "digits_value mm = ms div 60000"
    and "ascii_digits ss" "length ss = 2" "digits_value ss = ms mod 60000 div 1000"
    and "ascii_digits fff" "length fff = 3" "digits_value fff = ms mod 1000"
proof -
  have m: "0 \<le> ms div 60000" and s: "0 \<le> ms mod 60000 div 1000" and f: "0 \<le> ms mod 1000"
    using assms(1) by (simp_all add: pos_imp_zdiv_nonneg_iff)
  have "ms mod 60000 < 60000"
    by simp
  then have "ms mod 60000 div 1000 < 100"
    by linarith
  then have s2: "ms mod 60000 div 1000 < 10 ^ 2"
    by simp
  have f3: "ms mod 1000 < 10 ^ 3" by simp
  show "time_text ms = bracketed True (mm @ [COLON] @ ss @ [DOT] @ fff)"
    by (simp add: time_text_def bracketed_def mm_def ss_def fff_def)
  show "ascii_digits mm" "digits_value mm = ms div 60000"
    using padded_nonneg [OF m] by (simp_all add: mm_def)
  show "2 \<le> length mm"
    using padded_nonneg(3) [OF m, of 2] by (simp add: mm_def)
  show "ascii_digits ss" "digits_value ss = ms mod 60000 div 1000"
    using padded_nonneg [OF s] by (simp_all add: ss_def)
  show "length ss = 2"
    using padded_small [OF s s2] by (simp add: ss_def)
  show "ascii_digits fff" "digits_value fff = ms mod 1000"
    using padded_nonneg [OF f] by (simp_all add: fff_def)
  show "length fff = 3"
    using padded_small [OF f f3] by (simp add: fff_def)
qed

lemma minutes_short:
  assumes "0 \<le> ms" "ms < 6000000000"
  shows "length (dec_digits (nat (ms div 60000))) \<le> 5"
proof -
  have m: "0 \<le> ms div 60000"
    using assms(1) by (simp add: pos_imp_zdiv_nonneg_iff)
  have "ms div 60000 < 100000"
    using assms(2) by linarith
  then have "nat (ms div 60000) < 10 ^ 5"
    using m by (simp add: nat_less_iff)
  then show ?thesis
    by (intro dec_digits_length) simp_all
qed

lemma formattable_short:
  assumes "0 \<le> ms" "ms < 6000000000"
  shows "formattable lim ms"
proof -
  have "0 \<le> ms div 60000"
    using assms(1) by (simp add: pos_imp_zdiv_nonneg_iff)
  then show ?thesis
    using minutes_short [OF assms] by (simp add: formattable_def digits_allowed_def)
qed

text \<open>
  C2. For every \<open>ms\<close> with 0 \<le> ms < 6000000000, \<open>format_lrc_time\<close> returns a text and
  decoding that text gives \<open>ms\<close> back. The text is \<open>[MM:SS.mmm]\<close>: ASCII digits, the
  minutes (at least two digits) are the whole quotient by 60000 and do not wrap at 60, the
  seconds have exactly two digits and the milliseconds exactly three.
\<close>

theorem format_parse_roundtrip:
  assumes "0 \<le> ms" and "ms < 6000000000"
  shows "\<exists>text. format_lrc_time lim ms = Inr text
       \<and> parse_lrc_time lim text = Inr ms
       \<and> (\<exists>mm ss fff.
            text = [LBRACKET] @ mm @ [COLON] @ ss @ [DOT] @ fff @ [RBRACKET]
            \<and> ascii_digits mm \<and> 2 \<le> length mm \<and> digits_value mm = ms div 60000
            \<and> ascii_digits ss \<and> length ss = 2 \<and> digits_value ss = ms mod 60000 div 1000
            \<and> ascii_digits fff \<and> length fff = 3 \<and> digits_value fff = ms mod 1000)"
proof -
  define mm where "mm = padded 2 (ms div 60000)"
  define ss where "ss = padded 2 (ms mod 60000 div 1000)"
  define fff where "fff = padded 3 (ms mod 1000)"
  note shape = time_text_shape [OF assms(1), folded mm_def ss_def fff_def]
  have fmt: "format_lrc_time lim ms = Inr (time_text ms)"
    using formattable_short [OF assms] by (simp add: format_lrc_time_eq)
  have "0 \<le> ms div 60000"
    using assms(1) by (simp add: pos_imp_zdiv_nonneg_iff)
  then have "length mm \<le> 5"
    using minutes_short [OF assms] padded_nonneg(3) [of "ms div 60000" 2] by (simp add: mm_def)
  then have mm_ok: "digit_string lim mm"
    using shape(2,3) ascii_digits_decimal [of mm]
    by (intro digit_string_short) auto
  have ss_ok: "digit_string lim ss"
    using shape(5,6) ascii_digits_decimal [of ss]
    by (intro digit_string_short) auto
  have fff_ok: "fff \<noteq> []" "list_all is_decimal fff"
    using shape(8,9) ascii_digits_decimal [of fff] by auto
  have "parse_lrc_time lim (time_text ms)
          = Inr (digits_value mm * 60000 + digits_value ss * 1000 + digits_value fff)"
    using parse_lrc_time_digits(2) [OF mm_ok ss_ok fff_ok, of True] shape(1,9) by simp
  also have "digits_value mm * 60000 + digits_value ss * 1000 + digits_value fff = ms"
  proof -
    have "ms mod 1000 = ms mod 60000 mod 1000"
      by (simp add: mod_mod_cancel)
    then show ?thesis
      unfolding shape(4,7,10) by simp
  qed
  finally have "parse_lrc_time lim (time_text ms) = Inr ms" .
  moreover have "time_text ms = [LBRACKET] @ mm @ [COLON] @ ss @ [DOT] @ fff @ [RBRACKET]"
    using shape(1) by (simp add: bracketed_def)
  ultimately show ?thesis
    using fmt shape(2-10) by blast
qed

lemmas eval_format = format_lrc_time_def format_d_def padded_def digits_allowed_def
  dec_digits.simps

theorem format_parse_roundtrip_witness:
  "(0::int) \<le> 5999999999 \<and> (5999999999::int) < 6000000000
   \<and> format_lrc_time 4300 5999999999 = Inr (ascii ''[99999:59.999]'')
   \<and> parse_lrc_time 4300 (ascii ''[99999:59.999]'') = Inr 5999999999"
proof -
  have f: "format_lrc_time 4300 5999999999 = Inr (ascii ''[99999:59.999]'')"
    by (simp add: eval_format ascii_def)
  show ?thesis
    using format_parse_roundtrip [of 5999999999 4300] by (simp add: f)
qed

section \<open>Evaluating the parser and the merger on concrete texts\<close>

lemma sorted_list_of_union: "sorted_list_of_set (set xs \<union> set ys) = sort (remdups (xs @ ys))"
  by (simp add: sorted_list_of_set_sort_remdups flip: set_append)

lemma merge_lyrics_eval:
  "parse_lrc_content lim a = (ol, p1) \<Longrightarrow> parse_lrc_content lim b = (trl, p2) \<Longrightarrow>
   merge_lyrics lim a b =
     (merge_loop lim (to_dict ol) (to_dict trl)
        (sort (remdups (map fst (to_dict ol) @ map fst (to_dict trl)))) [], p1 @ p2)"
  by (simp add: merge_lyrics_def sorted_list_of_union Let_def del: set_map)

lemma replicate_small: "replicate 2 x = [x, x]" "replicate 3 x = [x, x, x]"
  by (simp_all add: numeral_2_eq_2 numeral_3_eq_3)

lemmas eval_parse = parse_lrc_time_def parse_lrc_time_body_def strip_set_def split1_def
  py_int_def is_int_space_def is_space_def space_chars_def match_tag_def digits1_def
  py_strip_def parse_line_def scan_lines_def parse_lrc_content_def eval_chars

lemmas eval_merge = merge_step_def to_dict_def dict_get_def eval_format replicate_small

section \<open>The parse loop as a list of entries per line\<close>

text \<open>
  The entries that the tags of one line give: one per tag that decodes, all with the same
  text; and the warnings: one per tag that does not decode.
\<close>

definition decoded :: "nat \<Rightarrow> ustring \<Rightarrow> ustring list \<Rightarrow> lyric list" where
  "decoded lim c tags =
     concat (map (\<lambda>g. case parse_lrc_time lim g of
                          Inr t \<Rightarrow> [\<lparr>time = t, content = c\<rparr>]
                        | Inl e \<Rightarrow> []) tags)"

definition refused :: "nat \<Rightarrow> ustring list \<Rightarrow> ustring list" where
  "refused lim tags =
     concat (map (\<lambda>g. case parse_lrc_time lim g of
                          Inr t \<Rightarrow> []
                        | Inl e \<Rightarrow> [warning g e]) tags)"

text \<open>The display text of a line: the tags removed, the white space trimmed.\<close>

definition display_text :: "ustring \<Rightarrow> ustring" where
  "display_text line = py_strip (sub_tags (py_strip line))"

definition line_entries :: "nat \<Rightarrow> ustring \<Rightarrow> lyric list" where
  "line_entries lim line =
     (if display_text line = [] then []
      else decoded lim (display_text line) (findall_tags (py_strip line)))"

definition line_warnings :: "nat \<Rightarrow> ustring \<Rightarrow> ustring list" where
  "line_warnings lim line =
     (if display_text line = [] then []
      else refused lim (findall_tags (py_strip line)))"

definition physical_lines :: "ustring \<Rightarrow> ustring list" where
  "physical_lines text = py_split NEWLINE (py_strip text)"

lemma parse_matches_eq:
  "parse_matches lim c tags (ls, pr) = (ls @ decoded lim c tags, pr @ refused lim tags)"
  by (induction tags arbitrary: ls pr) (auto simp: decoded_def refused_def split: sum.splits)

lemma strip_set_Nil [simp]: "strip_set p [] = []"
  by (simp add: strip_set_def)

lemma display_text_blank: "py_strip line = [] \<Longrightarrow> display_text line = []"
  by (simp add: display_text_def py_strip_def)

lemma parse_line_eq:
  "parse_line lim line (ls, pr) = (ls @ line_entries lim line, pr @ line_warnings lim line)"
proof (cases "py_strip line = []")
  case True
  then show ?thesis
    by (simp add: parse_line_def line_entries_def line_warnings_def display_text_blank)
next
  case False
  then show ?thesis
    by (auto simp: parse_line_def line_entries_def line_warnings_def display_text_def
        parse_matches_eq decoded_def refused_def Let_def)
qed

lemma fold_parse_line:
  "fold (parse_line lim) lines (ls, pr) =
     (ls @ concat (map (line_entries lim) lines), pr @ concat (map (line_warnings lim) lines))"
  by (induction lines arbitrary: ls pr) (simp_all add: parse_line_eq)

lemma scan_lines_eq:
  "scan_lines lim lines =
     (concat (map (line_entries lim) lines), concat (map (line_warnings lim) lines))"
  by (simp add: scan_lines_def fold_parse_line)

lemma parse_lrc_content_eq:
  "parse_lrc_content lim text =
     (sort_key time (concat (map (line_entries lim) (physical_lines text))),
      concat (map (line_warnings lim) (physical_lines text)))"
proof (cases "text = [] \<or> py_strip text = []")
  case True
  then have "py_strip text = []"
    by (auto simp: py_strip_def)
  then show ?thesis
    using True
    by (simp add: parse_lrc_content_def physical_lines_def line_entries_def line_warnings_def
        display_text_blank py_strip_def)
next
  case False
  then show ?thesis
    by (simp add: parse_lrc_content_def physical_lines_def scan_lines_eq)
qed

section \<open>What the tag pattern matches\<close>

text \<open>The texts of group 1: digits, a colon, digits, a dot, digits.\<close>

definition tag_text :: "ustring \<Rightarrow> ustring \<Rightarrow> ustring \<Rightarrow> ustring" where
  "tag_text d1 d2 d3 = d1 @ [COLON] @ d2 @ [DOT] @ d3"

definition digits :: "ustring \<Rightarrow> bool" where
  "digits ds = (ds \<noteq> [] \<and> list_all is_decimal ds)"

lemma digits1_run:
  assumes "digits d" "\<not> is_decimal c"
  shows "digits1 (d @ c # r) = Some (d, c # r)"
proof -
  have "list_all is_decimal d" using assms(1) by (simp add: digits_def)
  then have "takeWhile is_decimal (d @ c # r) = d \<and> dropWhile is_decimal (d @ c # r) = c # r"
    using assms(2) by (induction d) simp_all
  then show ?thesis
    using assms(1) by (simp add: digits1_def digits_def)
qed

lemma digits1_SomeD:
  assumes "digits1 s = Some (d, r)"
  shows "digits d" "s = d @ r" "r = [] \<or> \<not> is_decimal (hd r)"
proof -
  from assms have d: "d = takeWhile is_decimal s" and r: "r = dropWhile is_decimal s"
    and ne: "d \<noteq> []"
    by (auto simp: digits1_Some)
  show "digits d"
    using ne by (auto simp: d digits_def list_all_iff dest: set_takeWhileD)
  show "s = d @ r"
    by (simp add: d r)
  show "r = [] \<or> \<not> is_decimal (hd r)"
    unfolding r using hd_dropWhile [of is_decimal s] by blast
qed

lemma match_tag_intro:
  assumes "digits d1" "digits d2" "digits d3"
  shows "match_tag ([LBRACKET] @ tag_text d1 d2 d3 @ [RBRACKET] @ r) = Some (tag_text d1 d2 d3, r)"
  using digits1_run [OF assms(1), of COLON "d2 @ DOT # d3 @ RBRACKET # r"]
    digits1_run [OF assms(2), of DOT "d3 @ RBRACKET # r"]
    digits1_run [OF assms(3), of RBRACKET r]
  by (simp add: match_tag_def tag_text_def not_decimal_punct)

lemma match_tag_elim:
  assumes "match_tag s = Some (g, r)"
  shows "\<exists>d1 d2 d3. digits d1 \<and> digits d2 \<and> digits d3 \<and> g = tag_text d1 d2 d3
           \<and> s = [LBRACKET] @ g @ [RBRACKET] @ r"
proof -
  from assms obtain s1 d1 s2 s3 d2 s4 s5 d3 s6 where
    a: "expect LBRACKET s = Some s1" "digits1 s1 = Some (d1, s2)" "expect COLON s2 = Some s3"
       "digits1 s3 = Some (d2, s4)" "expect DOT s4 = Some s5" "digits1 s5 = Some (d3, s6)"
       "expect RBRACKET s6 = Some r" and g: "g = d1 @ [COLON] @ d2 @ [DOT] @ d3"
    by (auto simp: match_tag_def split: bind_splits)
  have "s = LBRACKET # s1" "s1 = d1 @ s2" "s2 = COLON # s3" "s3 = d2 @ s4" "s4 = DOT # s5"
    "s5 = d3 @ s6" "s6 = RBRACKET # r"
    using a digits1_SomeD(2) by (simp_all add: expect_Some)
  then have "s = [LBRACKET] @ g @ [RBRACKET] @ r"
    by (simp add: g)
  then show ?thesis
    using digits1_SomeD(1) [OF a(2)] digits1_SomeD(1) [OF a(4)] digits1_SomeD(1) [OF a(6)] g
    by (auto simp: tag_text_def)
qed

lemma match_tag_iff:
  "match_tag s = Some (g, r) \<longleftrightarrow>
     (\<exists>d1 d2 d3. digits d1 \<and> digits d2 \<and> digits d3 \<and> g = tag_text d1 d2 d3
        \<and> s = [LBRACKET] @ g @ [RBRACKET] @ r)"
  using match_tag_elim match_tag_intro by blast

lemma match_tag_not_bracket: "c \<noteq> LBRACKET \<Longrightarrow> match_tag (c # cs) = None"
  by (simp add: match_tag_def)

lemma findall_tags_shape:
  "g \<in> set (findall_tags s) \<Longrightarrow> \<exists>d1 d2 d3. digits d1 \<and> digits d2 \<and> digits d3 \<and> g = tag_text d1 d2 d3"
proof (induction s rule: findall_tags.induct)
  case 1
  then show ?case by simp
next
  case (2 c cs)
  show ?case
  proof (cases "match_tag (c # cs)")
    case None
    with 2 show ?thesis by simp
  next
    case (Some a)
    obtain g' r where a: "a = (g', r)" by (cases a)
    from 2(3) Some a have "g = g' \<or> g \<in> set (findall_tags r)" by simp
    then show ?thesis
    proof
      assume "g = g'"
      then show ?thesis using match_tag_elim [of "c # cs" g' r] Some a by blast
    next
      assume "g \<in> set (findall_tags r)"
      then show ?thesis using 2(2) [OF Some a [symmetric]] by simp
    qed
  qed
qed

lemma findall_no_bracket: "LBRACKET \<notin> set s \<Longrightarrow> findall_tags s = []"
  by (induction s) (simp_all add: match_tag_not_bracket)

lemma sub_no_bracket: "LBRACKET \<notin> set s \<Longrightarrow> sub_tags s = s"
  by (induction s) (simp_all add: match_tag_not_bracket)

section \<open>Decoding the tags that the pattern finds\<close>

lemma digits_digit_string: "digits d \<Longrightarrow> digits_allowed lim (length d) \<Longrightarrow> digit_string lim d"
  by (simp add: digits_def digit_string_def)

lemma py_int_refused:
  assumes "digits d" "\<not> digits_allowed lim (length d)"
  shows "py_int lim d = None"
proof -
  from assms(1) have ne: "d \<noteq> []" and dec: "list_all is_decimal d"
    by (simp_all add: digits_def)
  have hd: "is_decimal (hd d)" and last: "is_decimal (last d)"
    using decimal_hd_last [OF ne dec] by simp_all
  have strip: "strip_set is_int_space d = d"
    using ne hd last space_not_decimal by (intro strip_set_id) (auto simp: is_int_space_def)
  have sign: "hd d \<noteq> MINUS" "hd d \<noteq> PLUS"
    using hd not_decimal_punct by auto
  have filt: "filter (\<lambda>c. c \<noteq> UNDERSCORE) d = d"
    using dec not_decimal_punct by (auto simp: list_all_iff filter_id_conv)
  show ?thesis
    using ne sign assms(2) by (simp add: py_int_def strip filt)
qed

lemma digits_value_nonneg: "0 \<le> digits_value ds"
proof -
  have "0 \<le> v \<Longrightarrow> 0 \<le> foldl (\<lambda>v c. 10 * v + int (digit_val c)) v ds" for v
    by (induction ds arbitrary: v) simp_all
  then show ?thesis by (simp add: digits_value_def)
qed

lemma tag_decode_ok:
  assumes "digits d1" "digits d2" "digits d3"
    and "digits_allowed lim (length d1)" "digits_allowed lim (length d2)"
  shows "parse_lrc_time lim (tag_text d1 d2 d3) =
           Inr (digits_value d1 * 60000 + digits_value d2 * 1000
                + (if length d3 = 2 then digits_value d3 * 10 else digits_value (take 3 d3)))"
  using parse_lrc_time_digits(2) [OF digits_digit_string [OF assms(1,4)]
      digits_digit_string [OF assms(2,5)], of d3 False] assms(3)
  by (simp add: tag_text_def bracketed_def digits_def)

lemma tag_body_split:
  assumes "digits d1" "digits d2" "digits d3"
  shows "strip_set (\<lambda>c. c = LBRACKET \<or> c = RBRACKET) (tag_text d1 d2 d3) = tag_text d1 d2 d3"
    and "split1 COLON (tag_text d1 d2 d3) = [d1, d2 @ [DOT] @ d3]"
    and "split1 DOT (d2 @ [DOT] @ d3) = [d2, d3]"
proof -
  have c: "COLON \<notin> set d1" and d: "DOT \<notin> set d2"
    using assms not_decimal_punct by (auto simp: digits_def list_all_iff)
  show "split1 COLON (tag_text d1 d2 d3) = [d1, d2 @ [DOT] @ d3]"
    using split1_found [OF c, of "d2 @ [DOT] @ d3"] by (simp add: tag_text_def)
  show "split1 DOT (d2 @ [DOT] @ d3) = [d2, d3]"
    using split1_found [OF d, of d3] by simp
  have "is_decimal (hd d1)" "is_decimal (last d3)" "d1 \<noteq> []" "d3 \<noteq> []"
    using assms by (auto simp: digits_def list_all_iff)
  then show "strip_set (\<lambda>c. c = LBRACKET \<or> c = RBRACKET) (tag_text d1 d2 d3) = tag_text d1 d2 d3"
    using strip_brackets_digits [of "tag_text d1 d2 d3" False]
    by (simp add: tag_text_def bracketed_def)
qed

lemma parse_body_tag:
  assumes "digits d1" "digits d2" "digits d3"
  shows "parse_lrc_time_body lim (tag_text d1 d2 d3) =
     (case (if length d3 = 2 then map_option (\<lambda>v. v * 10) (py_int lim d3)
            else py_int lim (take 3 d3)) of
        None \<Rightarrow> None
      | Some ms \<Rightarrow>
          (case py_int lim d1 of
             None \<Rightarrow> None
           | Some m \<Rightarrow>
               (case py_int lim d2 of
                  None \<Rightarrow> None
                | Some s \<Rightarrow> Some (m * 60000 + s * 1000 + ms))))"
proof -
  have dot: "DOT \<in> set (d2 @ [DOT] @ d3)" by simp
  show ?thesis
    unfolding parse_lrc_time_body_def tag_body_split(2) [OF assms] list.case
      if_P [OF dot] tag_body_split(3) [OF assms]
    by (cases "py_int lim d3"; cases "py_int lim (take 3 d3)"; cases "length d3 = 2") simp_all
qed

lemma tag_decode_fail:
  assumes "digits d1" "digits d2" "digits d3"
    and "\<not> (digits_allowed lim (length d1) \<and> digits_allowed lim (length d2))"
  shows "parse_lrc_time lim (tag_text d1 d2 d3) =
           Inl (ValueError (invalid_format_msg @ tag_text d1 d2 d3))"
proof -
  have none: "py_int lim d1 = None \<or> py_int lim d2 = None"
  proof (cases "digits_allowed lim (length d1)")
    case True
    with assms(4) have "\<not> digits_allowed lim (length d2)" by simp
    then show ?thesis using py_int_refused [OF assms(2)] by simp
  next
    case False
    then show ?thesis using py_int_refused [OF assms(1)] by simp
  qed
  have b: "parse_lrc_time_body lim (tag_text d1 d2 d3) = None"
  proof (cases "py_int lim d1")
    case None
    then show ?thesis
      unfolding parse_body_tag [OF assms(1-3)] by (simp split: option.split)
  next
    case (Some m)
    with none have "py_int lim d2 = None" by simp
    then show ?thesis
      unfolding parse_body_tag [OF assms(1-3)] by (simp split: option.split)
  qed
  show ?thesis
    unfolding parse_lrc_time_def Let_def tag_body_split(1) [OF assms(1-3)] b by simp
qed

lemma tag_decode_nonneg:
  assumes "g \<in> set (findall_tags s)" "parse_lrc_time lim g = Inr t"
  shows "0 \<le> t"
proof -
  from findall_tags_shape [OF assms(1)] obtain d1 d2 d3
    where d: "digits d1" "digits d2" "digits d3" and g: "g = tag_text d1 d2 d3"
    by blast
  show ?thesis
  proof (cases "digits_allowed lim (length d1) \<and> digits_allowed lim (length d2)")
    case True
    then have "t = digits_value d1 * 60000 + digits_value d2 * 1000
                + (if length d3 = 2 then digits_value d3 * 10 else digits_value (take 3 d3))"
      using tag_decode_ok [OF d, of lim] assms(2) by (simp add: g)
    moreover have "0 \<le> digits_value d1" "0 \<le> digits_value d2" "0 \<le> digits_value d3"
      "0 \<le> digits_value (take 3 d3)"
      by (rule digits_value_nonneg)+
    ultimately show ?thesis by simp
  next
    case False
    then show ?thesis
      using tag_decode_fail [OF d False] assms(2) by (simp add: g)
  qed
qed

section \<open>The entries of a parsed text\<close>

lemma decoded_content: "l \<in> set (decoded lim c tags) \<Longrightarrow> content l = c"
  by (auto simp: decoded_def split: sum.splits)

lemma line_entries_content:
  "l \<in> set (line_entries lim line) \<Longrightarrow> content l = display_text line \<and> content l \<noteq> []"
  by (auto simp: line_entries_def dest: decoded_content split: if_splits)

lemma parse_lrc_content_set:
  "set (fst (parse_lrc_content lim text)) = (\<Union>line\<in>set (physical_lines text). set (line_entries lim line))"
  by (simp add: parse_lrc_content_eq)

lemma parse_content_nonempty:
  "l \<in> set (fst (parse_lrc_content lim text)) \<Longrightarrow> content l \<noteq> []"
  by (auto simp: parse_lrc_content_set dest: line_entries_content)

lemma parse_sorted: "sorted (map time (fst (parse_lrc_content lim text)))"
  by (simp add: parse_lrc_content_eq)

section \<open>The dictionary of a parsed text\<close>

lemma fold_update_keys:
  "fst ` set (fold (\<lambda>l d. AList.update (time l) (content l) d) ls d0) = fst ` set d0 \<union> time ` set ls"
  by (induction ls arbitrary: d0) (auto simp: dom_update)

lemma fold_update_distinct:
  "distinct (map fst d0) \<Longrightarrow>
   distinct (map fst (fold (\<lambda>l d. AList.update (time l) (content l) d) ls d0))"
  by (induction ls arbitrary: d0) (simp_all add: distinct_update)

lemma to_dict_keys: "set (map fst (to_dict ls)) = time ` set ls"
  using fold_update_keys [of ls "[]"] by (simp add: to_dict_def)

lemma to_dict_distinct: "distinct (map fst (to_dict ls))"
  using fold_update_distinct [of "[]" ls] by (simp add: to_dict_def)

lemma fold_update_map_of:
  "map_of (fold (\<lambda>l d. AList.update (time l) (content l) d) ls d0) t =
     (case filter (\<lambda>l. time l = t) ls of
        [] \<Rightarrow> map_of d0 t
      | _ \<Rightarrow> Some (content (last (filter (\<lambda>l. time l = t) ls))))"
proof (induction ls arbitrary: d0 rule: rev_induct)
  case Nil
  then show ?case by simp
next
  case (snoc x xs)
  then show ?case
    by (auto simp: update_conv' split: list.splits)
qed

lemma to_dict_map_of:
  "map_of (to_dict ls) t =
     (if t \<in> time ` set ls then Some (content (last (filter (\<lambda>l. time l = t) ls))) else None)"
proof -
  have "filter (\<lambda>l. time l = t) ls = [] \<longleftrightarrow> t \<notin> time ` set ls"
    by (auto simp: filter_empty_conv)
  then show ?thesis
    using fold_update_map_of [of ls "[]" t]
    by (auto simp: to_dict_def split: list.splits)
qed

lemma dict_get_to_dict:
  "dict_get (to_dict ls) t [] =
     (if t \<in> time ` set ls then content (last (filter (\<lambda>l. time l = t) ls)) else [])"
  by (simp add: dict_get_def to_dict_map_of)

lemma dict_get_nonempty:
  assumes "\<And>l. l \<in> set ls \<Longrightarrow> content l \<noteq> []"
  shows "dict_get (to_dict ls) t [] \<noteq> [] \<longleftrightarrow> t \<in> time ` set ls"
proof (cases "t \<in> time ` set ls")
  case True
  then have ne: "filter (\<lambda>l. time l = t) ls \<noteq> []"
    by (auto simp: filter_empty_conv)
  then have "last (filter (\<lambda>l. time l = t) ls) \<in> set ls"
    using last_in_set [OF ne] by auto
  then show ?thesis
    using True assms by (simp add: dict_get_to_dict)
next
  case False
  then show ?thesis by (simp add: dict_get_to_dict)
qed

section \<open>The merge loop\<close>

text \<open>The timestamps of a text: the times of the entries that its parse returns.\<close>

definition timestamps :: "nat \<Rightarrow> ustring \<Rightarrow> int set" where
  "timestamps lim text = time ` set (fst (parse_lrc_content lim text))"

text \<open>The merged line of a timestamp that has a text on at least one side.\<close>

definition line_of :: "(int \<times> ustring) list \<Rightarrow> (int \<times> ustring) list \<Rightarrow> int \<Rightarrow> ustring" where
  "line_of d1 d2 t =
     (if dict_get d1 t [] \<noteq> [] \<and> dict_get d2 t [] \<noteq> []
      then time_text t @ ascii '' '' @ dict_get d1 t [] @ ascii '' / '' @ dict_get d2 t []
      else if dict_get d1 t [] \<noteq> []
      then time_text t @ ascii '' '' @ dict_get d1 t []
      else time_text t @ ascii '' '' @ dict_get d2 t [])"

lemma format_isl: "isl (format_lrc_time lim t) \<longleftrightarrow> \<not> formattable lim t"
  by (simp add: format_lrc_time_eq)

lemma merge_step_eq:
  assumes "dict_get d1 t [] \<noteq> [] \<or> dict_get d2 t [] \<noteq> []"
  shows "merge_step lim d1 d2 t acc =
           (if formattable lim t then Inr (acc @ [line_of d1 d2 t])
            else Inl (ValueError (int_str_limit_msg lim)))"
  using assms by (auto simp: merge_step_def line_of_def Let_def format_lrc_time_eq)

lemma merge_loop_ok:
  assumes "\<And>t. t \<in> set ts \<Longrightarrow> dict_get d1 t [] \<noteq> [] \<or> dict_get d2 t [] \<noteq> []"
    and "\<And>t. t \<in> set ts \<Longrightarrow> formattable lim t"
  shows "merge_loop lim d1 d2 ts acc = Inr (acc @ map (line_of d1 d2) ts)"
  using assms
proof (induction ts arbitrary: acc)
  case Nil
  then show ?case by simp
next
  case (Cons t ts)
  have "merge_step lim d1 d2 t acc = Inr (acc @ [line_of d1 d2 t])"
    using Cons.prems(1) [of t] Cons.prems(2) [of t] by (simp add: merge_step_eq)
  then show ?case
    using Cons by simp
qed

lemma merge_loop_raises:
  assumes "\<And>t. t \<in> set ts \<Longrightarrow> dict_get d1 t [] \<noteq> [] \<or> dict_get d2 t [] \<noteq> []"
    and "\<exists>t\<in>set ts. \<not> formattable lim t"
  shows "merge_loop lim d1 d2 ts acc = Inl (ValueError (int_str_limit_msg lim))"
  using assms
proof (induction ts arbitrary: acc)
  case Nil
  then show ?case by simp
next
  case (Cons t ts)
  show ?case
  proof (cases "formattable lim t")
    case True
    then have step: "merge_step lim d1 d2 t acc = Inr (acc @ [line_of d1 d2 t])"
      using Cons.prems(1) [of t] by (simp add: merge_step_eq)
    from True Cons.prems(2) have "\<exists>t\<in>set ts. \<not> formattable lim t" by auto
    then have "merge_loop lim d1 d2 ts (acc @ [line_of d1 d2 t]) = Inl (ValueError (int_str_limit_msg lim))"
      using Cons.IH [of "acc @ [line_of d1 d2 t]"] Cons.prems(1) by simp
    then show ?thesis by (simp add: step)
  next
    case False
    then have "merge_step lim d1 d2 t acc = Inl (ValueError (int_str_limit_msg lim))"
      using Cons.prems(1) [of t] by (simp add: merge_step_eq)
    then show ?thesis by simp
  qed
qed

lemma finite_timestamps: "finite (timestamps lim text)"
  by (simp add: timestamps_def)

lemma timestamps_has_text:
  assumes "t \<in> timestamps lim a \<union> timestamps lim b"
  shows "dict_get (to_dict (fst (parse_lrc_content lim a))) t [] \<noteq> []
       \<or> dict_get (to_dict (fst (parse_lrc_content lim b))) t [] \<noteq> []"
  using assms
    dict_get_nonempty [of "fst (parse_lrc_content lim a)" t, OF parse_content_nonempty]
    dict_get_nonempty [of "fst (parse_lrc_content lim b)" t, OF parse_content_nonempty]
  by (auto simp: timestamps_def)

lemma merge_lyrics_loop:
  "fst (merge_lyrics lim a b) =
     merge_loop lim (to_dict (fst (parse_lrc_content lim a))) (to_dict (fst (parse_lrc_content lim b)))
       (sorted_list_of_set (timestamps lim a \<union> timestamps lim b)) []"
proof -
  obtain la pa where a: "parse_lrc_content lim a = (la, pa)" by (cases "parse_lrc_content lim a")
  obtain lb pb where b: "parse_lrc_content lim b = (lb, pb)" by (cases "parse_lrc_content lim b")
  have keys: "set (map fst (to_dict la)) \<union> set (map fst (to_dict lb))
                = timestamps lim a \<union> timestamps lim b"
    by (simp only: to_dict_keys timestamps_def a b fst_conv)
  show ?thesis
    unfolding merge_lyrics_def a b prod.case Let_def fst_conv keys by simp
qed

lemma merge_lyrics_result:
  "fst (merge_lyrics lim a b) =
     (if \<forall>t\<in>timestamps lim a \<union> timestamps lim b. formattable lim t
      then Inr (map (line_of (to_dict (fst (parse_lrc_content lim a)))
                       (to_dict (fst (parse_lrc_content lim b))))
                  (sorted_list_of_set (timestamps lim a \<union> timestamps lim b)))
      else Inl (ValueError (int_str_limit_msg lim)))"
proof -
  let ?ts = "sorted_list_of_set (timestamps lim a \<union> timestamps lim b)"
  have set_ts: "set ?ts = timestamps lim a \<union> timestamps lim b"
    using finite_timestamps by simp
  have has_text: "\<And>t. t \<in> set ?ts \<Longrightarrow>
      dict_get (to_dict (fst (parse_lrc_content lim a))) t [] \<noteq> []
      \<or> dict_get (to_dict (fst (parse_lrc_content lim b))) t [] \<noteq> []"
    unfolding set_ts by (rule timestamps_has_text)
  show ?thesis
  proof (cases "\<forall>t\<in>timestamps lim a \<union> timestamps lim b. formattable lim t")
    case True
    then have "\<And>t. t \<in> set ?ts \<Longrightarrow> formattable lim t"
      unfolding set_ts by blast
    then have "merge_loop lim (to_dict (fst (parse_lrc_content lim a)))
        (to_dict (fst (parse_lrc_content lim b))) ?ts [] =
      Inr ([] @ map (line_of (to_dict (fst (parse_lrc_content lim a)))
                       (to_dict (fst (parse_lrc_content lim b)))) ?ts)"
      by (intro merge_loop_ok has_text)
    with True show ?thesis
      by (simp add: merge_lyrics_loop)
  next
    case False
    then have "\<exists>t\<in>set ?ts. \<not> formattable lim t"
      unfolding set_ts by blast
    then have "merge_loop lim (to_dict (fst (parse_lrc_content lim a)))
        (to_dict (fst (parse_lrc_content lim b))) ?ts [] =
      Inl (ValueError (int_str_limit_msg lim))"
      by (intro merge_loop_raises has_text)
    with False show ?thesis
      by (simp add: merge_lyrics_loop)
  qed
qed

lemma line_of_shape:
  assumes "dict_get d1 t [] \<noteq> [] \<or> dict_get d2 t [] \<noteq> []"
  shows "\<exists>body. body \<noteq> [] \<and> line_of d1 d2 t = time_text t @ ascii '' '' @ body"
  using assms by (auto simp: line_of_def)

lemma formattable_unlimited: "formattable 0 t"
  by (simp add: formattable_def digits_allowed_def)

lemma formattable_below:
  assumes "0 \<le> t" "t div 60000 < 10 ^ k" "0 < k" "k \<le> 640"
  shows "formattable lim t"
proof -
  have m: "0 \<le> t div 60000"
    using assms(1) by (simp add: pos_imp_zdiv_nonneg_iff)
  have "int (nat (t div 60000)) < int (10 ^ k)"
    using m assms(2) by simp
  then have "nat (t div 60000) < 10 ^ k"
    by (simp only: of_nat_less_iff)
  then have "length (dec_digits (nat (t div 60000))) \<le> k"
    using assms(3) by (intro dec_digits_length)
  then show ?thesis
    using m assms(4) by (simp add: formattable_def digits_allowed_def)
qed

lemma timestamps_nonneg: "t \<in> timestamps lim a \<Longrightarrow> 0 \<le> t"
proof -
  assume "t \<in> timestamps lim a"
  then obtain l line where l: "l \<in> set (line_entries lim line)" "time l = t"
    by (auto simp: timestamps_def parse_lrc_content_set)
  then obtain g where "g \<in> set (findall_tags (py_strip line))" "parse_lrc_time lim g = Inr t"
    by (auto simp: line_entries_def decoded_def split: if_splits sum.splits)
  then show ?thesis by (rule tag_decode_nonneg)
qed

section \<open>A text of one line\<close>

lemma py_split_single: "c \<notin> set s \<Longrightarrow> py_split c s = [s]"
  by (induction s) simp_all

lemma strip_set_subset: "set (strip_set p s) \<subseteq> set s"
proof -
  have "set (dropWhile p (rev (dropWhile p s))) \<subseteq> set (rev (dropWhile p s))"
    by (rule set_dropWhileD [THEN subsetI])
  also have "\<dots> \<subseteq> set s"
    using set_dropWhileD [of _ p s] by auto
  finally show ?thesis by (simp add: strip_set_def)
qed

lemma strip_set_ends:
  assumes "strip_set p s \<noteq> []"
  shows "\<not> p (hd (strip_set p s))" "\<not> p (last (strip_set p s))"
proof -
  let ?a = "dropWhile p s"
  let ?b = "dropWhile p (rev ?a)"
  have b: "?b \<noteq> []" using assms by (simp add: strip_set_def)
  have a: "?a \<noteq> []"
  proof
    assume "?a = []"
    then have "?b = []" by (simp only: rev.simps dropWhile.simps)
    with b show False by simp
  qed
  have "\<not> p (hd ?b)" using b by (rule hd_dropWhile)
  then show "\<not> p (last (strip_set p s))"
    using b by (simp add: strip_set_def last_rev)
  have "rev ?a = takeWhile p (rev ?a) @ ?b" by simp
  then have "last (rev ?a) = last ?b"
    using b by (metis last_appendR)
  then have "last ?b = hd ?a"
    using a by (simp add: last_rev)
  moreover have "\<not> p (hd ?a)" using a by (rule hd_dropWhile)
  ultimately show "\<not> p (hd (strip_set p s))"
    using b by (simp add: strip_set_def hd_rev)
qed

lemma strip_set_idem: "strip_set p (strip_set p s) = strip_set p s"
proof (cases "strip_set p s = []")
  case True
  then show ?thesis by simp
next
  case False
  then show ?thesis
    using strip_set_ends [OF False] by (intro strip_set_id)
qed

lemma display_text_strip: "display_text (py_strip line) = display_text line"
  by (simp add: display_text_def py_strip_def strip_set_idem)

lemma parse_single_line:
  assumes "NEWLINE \<notin> set line"
  shows "parse_lrc_content lim line = (sort_key time (line_entries lim line), line_warnings lim line)"
proof -
  have "NEWLINE \<notin> set (py_strip line)"
    using assms strip_set_subset [of is_space line] by (auto simp: py_strip_def)
  then have "physical_lines line = [py_strip line]"
    by (simp add: physical_lines_def py_split_single)
  then show ?thesis
    by (simp add: parse_lrc_content_eq line_entries_def line_warnings_def display_text_strip)
       (simp add: py_strip_def strip_set_idem)
qed


section \<open>A time that cannot be formatted\<close>

text \<open>
  A line whose tag has \<open>n\<close> nines for the minutes and 60 seconds: the tag decodes to
  60000 * 10 ^ n milliseconds when \<open>int\<close> accepts \<open>n\<close> digits, and the minutes of that time,
  10 ^ n, have \<open>n + 1\<close> digits.
\<close>

definition nines_line :: "nat \<Rightarrow> ustring" where
  "nines_line n = [LBRACKET] @ replicate n 57 @ ascii '':60.00]x''"

lemma findall_tag_first:
  assumes "digits d1" "digits d2" "digits d3"
  shows "findall_tags ([LBRACKET] @ tag_text d1 d2 d3 @ [RBRACKET] @ r) = tag_text d1 d2 d3 # findall_tags r"
    and "sub_tags ([LBRACKET] @ tag_text d1 d2 d3 @ [RBRACKET] @ r) = sub_tags r"
  using match_tag_intro [OF assms, of r] by simp_all

lemma digits_replicate: "0 < n \<Longrightarrow> is_decimal c \<Longrightarrow> digits (replicate n c)"
  by (simp add: digits_def list_all_iff)

lemma digits_value_nines: "digits_value (replicate n 57) = 10 ^ n - 1"
proof (induction n)
  case 0
  then show ?case by (simp add: digits_value_def)
next
  case (Suc n)
  have "replicate (Suc n) (57::nat) = replicate n 57 @ [57]"
    by (simp add: replicate_append_same)
  then show ?case
    using Suc by (simp add: digits_value_snoc digit_val_ascii)
qed

lemma dec_digits_power: "length (dec_digits (10 ^ n)) = Suc n"
proof (induction n)
  case 0
  then show ?case by (simp add: dec_digits.simps [of "Suc 0"])
next
  case (Suc n)
  have "\<not> (10::nat) ^ Suc n < 10" by simp
  then show ?case
    using Suc by (simp add: dec_digits.simps [of "10 * 10 ^ n"])
qed

lemma nines_line_tag:
  "nines_line n = [LBRACKET] @ tag_text (replicate n 57) (ascii ''60'') (ascii ''00'') @ [RBRACKET] @ ascii ''x''"
  by (simp add: nines_line_def tag_text_def ascii_def)

lemma digits_60_00: "digits (ascii ''60'')" "digits (ascii ''00'')"
  by (simp_all add: digits_def ascii_def is_decimal_ascii)

lemma nines_line_parts:
  assumes "0 < n"
  shows "py_strip (nines_line n) = nines_line n"
    and "findall_tags (nines_line n) = [tag_text (replicate n 57) (ascii ''60'') (ascii ''00'')]"
    and "display_text (nines_line n) = ascii ''x''"
    and "NEWLINE \<notin> set (nines_line n)"
proof -
  have d: "digits (replicate n 57)"
    using assms by (simp add: digits_replicate is_decimal_ascii)
  show s: "py_strip (nines_line n) = nines_line n"
    unfolding py_strip_def
    by (rule strip_set_id) (simp_all add: nines_line_def ascii_def is_space_def space_chars_def)
  show "findall_tags (nines_line n) = [tag_text (replicate n 57) (ascii ''60'') (ascii ''00'')]"
    unfolding nines_line_tag findall_tag_first(1) [OF d digits_60_00]
    by (simp add: match_tag_not_bracket ascii_def)
  have sub: "sub_tags (nines_line n) = ascii ''x''"
    unfolding nines_line_tag findall_tag_first(2) [OF d digits_60_00]
    by (simp add: match_tag_not_bracket ascii_def)
  have p: "py_strip (ascii ''x'') = ascii ''x''"
    by (simp add: py_strip_def strip_set_def ascii_def is_space_def space_chars_def)
  show "display_text (nines_line n) = ascii ''x''"
    unfolding display_text_def s sub p ..
  show "NEWLINE \<notin> set (nines_line n)"
    by (simp add: nines_line_def ascii_def)
qed

lemma nines_tag_time:
  assumes "0 < n" "digits_allowed lim n"
  shows "parse_lrc_time lim (tag_text (replicate n 57) (ascii ''60'') (ascii ''00'')) =
           Inr (60000 * 10 ^ n)"
proof -
  have d: "digits (replicate n 57)"
    using assms(1) by (simp add: digits_replicate is_decimal_ascii)
  have a: "digits_allowed lim (length (replicate n (57::nat)))"
    "digits_allowed lim (length (ascii ''60''))"
    using assms(2) by (simp_all add: digits_allowed_def ascii_def)
  have v: "digits_value (ascii ''60'') = 60" "digits_value (ascii ''00'') = 0"
    "length (ascii ''00'') = 2"
    by (simp_all add: eval_chars)
  show ?thesis
    unfolding tag_decode_ok [OF d digits_60_00 a] v digits_value_nines
    by (simp add: algebra_simps)
qed

lemma parse_nines_line:
  assumes "0 < n" "digits_allowed lim n"
  shows "parse_lrc_content lim (nines_line n) =
           ([\<lparr>time = 60000 * 10 ^ n, content = ascii ''x''\<rparr>], [])"
  using nines_line_parts [OF assms(1)] nines_tag_time [OF assms]
  by (simp add: parse_single_line line_entries_def line_warnings_def decoded_def refused_def
      ascii_def)

lemma nines_time_not_formattable:
  assumes "\<not> digits_allowed lim (Suc n)"
  shows "\<not> formattable lim (60000 * 10 ^ n)"
proof -
  have h: "nat \<bar>(60000 * 10 ^ n) div 60000 :: int\<bar> = 10 ^ n"
    by (simp add: nat_power_eq)
  show ?thesis
    unfolding formattable_def h dec_digits_power using assms .
qed

lemma parse_blank:
  assumes "list_all is_space s"
  shows "parse_lrc_content lim s = ([], [])"
proof -
  have d: "dropWhile is_space s = []"
    using assms by (induction s) simp_all
  have "py_strip s = []"
    unfolding py_strip_def strip_set_def d by simp
  then show ?thesis
    by (simp add: parse_lrc_content_def)
qed

lemma timestamps_blank: "list_all is_space text \<Longrightarrow> timestamps lim text = {}"
  by (simp add: timestamps_def parse_blank)

lemma merge_nines_raises:
  assumes "0 < n" "digits_allowed lim n" "\<not> digits_allowed lim (Suc n)"
    and "list_all is_space blank"
  shows "merge_lyrics lim (nines_line n) blank = (Inl (ValueError (int_str_limit_msg lim)), [])"
    and "merge_lyrics lim blank (nines_line n) = (Inl (ValueError (int_str_limit_msg lim)), [])"
proof -
  have t: "timestamps lim (nines_line n) = {60000 * 10 ^ n}"
    by (simp add: timestamps_def parse_nines_line [OF assms(1,2)])
  have f: "\<not> formattable lim (60000 * 10 ^ n)"
    using assms(3) by (rule nines_time_not_formattable)
  have "fst (merge_lyrics lim (nines_line n) blank) = Inl (ValueError (int_str_limit_msg lim))"
    unfolding merge_lyrics_result using f by (simp add: t timestamps_blank [OF assms(4)])
  moreover have "snd (merge_lyrics lim (nines_line n) blank) = []"
    by (simp add: merge_lyrics_def parse_nines_line [OF assms(1,2)] parse_blank [OF assms(4)] Let_def)
  ultimately show "merge_lyrics lim (nines_line n) blank = (Inl (ValueError (int_str_limit_msg lim)), [])"
    by (simp add: prod_eq_iff)
  have "fst (merge_lyrics lim blank (nines_line n)) = Inl (ValueError (int_str_limit_msg lim))"
    unfolding merge_lyrics_result using f by (simp add: t timestamps_blank [OF assms(4)])
  moreover have "snd (merge_lyrics lim blank (nines_line n)) = []"
    by (simp add: merge_lyrics_def parse_nines_line [OF assms(1,2)] parse_blank [OF assms(4)] Let_def)
  ultimately show "merge_lyrics lim blank (nines_line n) = (Inl (ValueError (int_str_limit_msg lim)), [])"
    by (simp add: prod_eq_iff)
qed

lemma limit_msg_4300:
  "int_str_limit_msg 4300 =
     ascii ''Exceeds the limit (4300 digits) for integer string conversion; use sys.set_int_max_str_digits() to increase the limit''"
  by (simp add: int_str_limit_msg_def dec_digits.simps ascii_def)

section \<open>One line per timestamp\<close>

lemma card_image_single: "card (f ` set [x]) = 1"
  by simp

lemma merge_lines_shape:
  assumes "\<forall>t\<in>timestamps lim a \<union> timestamps lim b. formattable lim t"
  shows "\<exists>lines ts. fst (merge_lyrics lim a b) = Inr lines
           \<and> sorted ts \<and> distinct ts \<and> set ts = timestamps lim a \<union> timestamps lim b
           \<and> list_all2 (\<lambda>t line. \<exists>f body. format_lrc_time lim t = Inr f \<and> body \<noteq> []
                                   \<and> line = f @ ascii '' '' @ body) ts lines
           \<and> length lines \<le> card (timestamps lim a) + card (timestamps lim b)
           \<and> (length lines = card (timestamps lim a) + card (timestamps lim b)
                \<longleftrightarrow> timestamps lim a \<inter> timestamps lim b = {})"
proof -
  let ?A = "timestamps lim a" and ?B = "timestamps lim b"
  let ?ts = "sorted_list_of_set (?A \<union> ?B)"
  let ?d1 = "to_dict (fst (parse_lrc_content lim a))"
  let ?d2 = "to_dict (fst (parse_lrc_content lim b))"
  let ?lines = "map (line_of ?d1 ?d2) ?ts"
  have fin: "finite ?A" "finite ?B"
    by (rule finite_timestamps)+
  have lines: "fst (merge_lyrics lim a b) = Inr ?lines"
    using assms by (simp add: merge_lyrics_result)
  have set_ts: "set ?ts = ?A \<union> ?B"
    using fin by simp
  have "\<forall>t\<in>set ?ts. \<exists>f body. format_lrc_time lim t = Inr f \<and> body \<noteq> []
          \<and> line_of ?d1 ?d2 t = f @ ascii '' '' @ body"
  proof
    fix t
    assume "t \<in> set ?ts"
    then have t: "t \<in> ?A \<union> ?B"
      using set_ts by simp
    then have f: "format_lrc_time lim t = Inr (time_text t)"
      using assms by (simp add: format_lrc_time_eq)
    from line_of_shape [OF timestamps_has_text [OF t]] obtain body
      where "body \<noteq> []" "line_of ?d1 ?d2 t = time_text t @ ascii '' '' @ body"
      by blast
    with f show "\<exists>f body. format_lrc_time lim t = Inr f \<and> body \<noteq> []
          \<and> line_of ?d1 ?d2 t = f @ ascii '' '' @ body"
      by blast
  qed
  then have all2: "list_all2 (\<lambda>t line. \<exists>f body. format_lrc_time lim t = Inr f \<and> body \<noteq> []
                                   \<and> line = f @ ascii '' '' @ body) ?ts ?lines"
    unfolding list_all2_map2 list_all2_same .
  have len: "length ?lines = card (?A \<union> ?B)"
    by simp
  have sum: "card ?A + card ?B = card (?A \<union> ?B) + card (?A \<inter> ?B)"
    using fin by (rule card_Un_Int)
  have zero: "card (?A \<inter> ?B) = 0 \<longleftrightarrow> ?A \<inter> ?B = {}"
    using fin by simp
  have le: "length ?lines \<le> card ?A + card ?B"
    using len sum by simp
  have eq: "length ?lines = card ?A + card ?B \<longleftrightarrow> ?A \<inter> ?B = {}"
    using len sum zero by simp
  have "sorted ?ts" "distinct ?ts"
    by simp_all
  then show ?thesis
    using lines set_ts all2 le eq by (intro exI [of _ ?lines] exI [of _ ?ts] conjI)
qed

text \<open>
  C3, as the code has it. \<open>merge_lyrics\<close> formats every timestamp of the union of the
  timestamps of the two texts. When each of them can be formatted, the output has exactly
  one line per timestamp of that union, in ascending order and without duplicates; each
  line starts with the formatted timestamp, a space and a non-empty text, and no line
  belongs to a timestamp of neither side, so the number of lines is at most the sum of the
  numbers of distinct timestamps of the two texts, and equal to it exactly when they share
  none. Otherwise \<open>merge_lyrics\<close> raises the ValueError of the conversion and returns no
  line. Every timestamp can be formatted when the interpreter has no digit limit, and also
  when the minutes of all timestamps are below 10 ^ 640.
\<close>

theorem merge_one_line_per_timestamp:
  "(if \<forall>t\<in>timestamps lim a \<union> timestamps lim b. \<not> isl (format_lrc_time lim t)
    then \<exists>lines ts. fst (merge_lyrics lim a b) = Inr lines
           \<and> sorted ts \<and> distinct ts \<and> set ts = timestamps lim a \<union> timestamps lim b
           \<and> list_all2 (\<lambda>t line. \<exists>f body. format_lrc_time lim t = Inr f \<and> body \<noteq> []
                                   \<and> line = f @ ascii '' '' @ body) ts lines
           \<and> length lines \<le> card (timestamps lim a) + card (timestamps lim b)
           \<and> (length lines = card (timestamps lim a) + card (timestamps lim b)
                \<longleftrightarrow> timestamps lim a \<inter> timestamps lim b = {})
    else fst (merge_lyrics lim a b) = Inl (ValueError (int_str_limit_msg lim)))
   \<and> (lim = 0 \<or> (\<forall>t\<in>timestamps lim a \<union> timestamps lim b. t div 60000 < 10 ^ 640) \<longrightarrow>
        (\<forall>t\<in>timestamps lim a \<union> timestamps lim b. \<not> isl (format_lrc_time lim t)))"
proof (intro conjI impI)
  show "if \<forall>t\<in>timestamps lim a \<union> timestamps lim b. \<not> isl (format_lrc_time lim t)
    then \<exists>lines ts. fst (merge_lyrics lim a b) = Inr lines
           \<and> sorted ts \<and> distinct ts \<and> set ts = timestamps lim a \<union> timestamps lim b
           \<and> list_all2 (\<lambda>t line. \<exists>f body. format_lrc_time lim t = Inr f \<and> body \<noteq> []
                                   \<and> line = f @ ascii '' '' @ body) ts lines
           \<and> length lines \<le> card (timestamps lim a) + card (timestamps lim b)
           \<and> (length lines = card (timestamps lim a) + card (timestamps lim b)
                \<longleftrightarrow> timestamps lim a \<inter> timestamps lim b = {})
    else fst (merge_lyrics lim a b) = Inl (ValueError (int_str_limit_msg lim))"
  proof -
    have cond: "(\<forall>t\<in>timestamps lim a \<union> timestamps lim b. \<not> isl (format_lrc_time lim t))
             \<longleftrightarrow> (\<forall>t\<in>timestamps lim a \<union> timestamps lim b. formattable lim t)"
      by (simp add: format_isl)
    show ?thesis
    proof (cases "\<forall>t\<in>timestamps lim a \<union> timestamps lim b. formattable lim t")
      case True
      show ?thesis
        unfolding cond if_P [OF True] by (rule merge_lines_shape [OF True])
    next
      case False
      then have "fst (merge_lyrics lim a b) = Inl (ValueError (int_str_limit_msg lim))"
        by (simp add: merge_lyrics_result)
      then show ?thesis
        unfolding cond if_not_P [OF False] .
    qed
  qed
next
  assume h: "lim = 0 \<or> (\<forall>t\<in>timestamps lim a \<union> timestamps lim b. t div 60000 < 10 ^ 640)"
  show "\<forall>t\<in>timestamps lim a \<union> timestamps lim b. \<not> isl (format_lrc_time lim t)"
  proof
    fix t
    assume t: "t \<in> timestamps lim a \<union> timestamps lim b"
    then have nonneg: "0 \<le> t"
      using timestamps_nonneg by blast
    from h have "formattable lim t"
    proof
      assume "lim = 0"
      then show ?thesis by (simp add: formattable_unlimited)
    next
      assume "\<forall>t\<in>timestamps lim a \<union> timestamps lim b. t div 60000 < 10 ^ 640"
      then have "t div 60000 < 10 ^ 640" using t by (rule bspec)
      from formattable_below [OF nonneg this] show ?thesis
        by simp
    qed
    then show "\<not> isl (format_lrc_time lim t)"
      by (simp only: format_isl not_not)
  qed
qed

text \<open>
  C3 as the specification words it fails at the text \<open>[\<close>, 4300 nines, \<open>:60.00]x\<close> under the default
  limit of 4300 digits: the text has one timestamp, 60000 * 10 ^ 4300 ms, whose minutes
  10 ^ 4300 have 4301 digits, and \<open>merge_lyrics\<close> raises instead of returning a line.
\<close>

theorem merge_no_line_for_huge_minutes:
  "card (timestamps 4300 (nines_line 4300)) = 1
   \<and> merge_lyrics 4300 (nines_line 4300) [] =
       (Inl (ValueError (ascii ''Exceeds the limit (4300 digits) for integer string conversion; use sys.set_int_max_str_digits() to increase the limit'')), [])"
proof -
  have z: "0 < (4300::nat)"
    by simp
  have a: "digits_allowed 4300 4300" "\<not> digits_allowed 4300 (Suc 4300)"
    by (simp_all add: digits_allowed_def)
  have b: "list_all is_space []"
    by simp
  note p = parse_nines_line [OF z a(1)]
  have "card (timestamps 4300 (nines_line 4300)) =
          card (time ` set [\<lparr>time = 60000 * 10 ^ 4300, content = ascii ''x''\<rparr>])"
    unfolding timestamps_def p fst_conv ..
  also have "\<dots> = 1"
    by (rule card_image_single)
  finally have c: "card (timestamps 4300 (nines_line 4300)) = 1" .
  note r = merge_nines_raises(1) [OF z a b, unfolded limit_msg_4300]
  show ?thesis
    using c r by (intro conjI)
qed

text \<open>
  An instance with one shared timestamp: the texts have the timestamps 1000, 2000 and
  2000, 3000; the merge has three lines, fewer than 2 + 2.
\<close>

definition example_left :: ustring where
  "example_left = ascii ''[00:01.00]a'' @ [NEWLINE] @ ascii ''[00:02.00]b''"

definition example_right :: ustring where
  "example_right = ascii ''[00:02.00]c'' @ [NEWLINE] @ ascii ''[00:03.00]d''"

lemma parse_example_left:
  "parse_lrc_content lim example_left =
     ([\<lparr>time = 1000, content = ascii ''a''\<rparr>, \<lparr>time = 2000, content = ascii ''b''\<rparr>], [])"
  by (simp add: example_left_def eval_parse cong: prod.case_cong_weak bind_weak_cong)

lemma parse_example_right:
  "parse_lrc_content lim example_right =
     ([\<lparr>time = 2000, content = ascii ''c''\<rparr>, \<lparr>time = 3000, content = ascii ''d''\<rparr>], [])"
  by (simp add: example_right_def eval_parse cong: prod.case_cong_weak bind_weak_cong)

theorem merge_one_line_per_timestamp_witness:
  "timestamps 4300 example_left = {1000, 2000} \<and> timestamps 4300 example_right = {2000, 3000}
   \<and> \<not> isl (format_lrc_time 4300 1000) \<and> \<not> isl (format_lrc_time 4300 2000)
   \<and> \<not> isl (format_lrc_time 4300 3000)
   \<and> fst (merge_lyrics 4300 example_left example_right) =
        Inr [ascii ''[00:01.000] a'', ascii ''[00:02.000] b / c'', ascii ''[00:03.000] d'']
   \<and> (\<exists>lines. fst (merge_lyrics 4300 example_left example_right) = Inr lines
         \<and> length lines = 3 \<and> length lines \<le> 2 + 2)"
proof -
  have ta: "timestamps 4300 example_left = {1000, 2000}"
    and tb: "timestamps 4300 example_right = {2000, 3000}"
    by (simp_all add: timestamps_def parse_example_left parse_example_right)
  have f: "\<not> isl (format_lrc_time 4300 1000)" "\<not> isl (format_lrc_time 4300 2000)"
    "\<not> isl (format_lrc_time 4300 3000)"
    by (simp_all add: eval_format)
  have c: "\<forall>t\<in>timestamps 4300 example_left \<union> timestamps 4300 example_right.
            \<not> isl (format_lrc_time 4300 t)"
    using f by (simp add: ta tb)
  have l: "fst (merge_lyrics 4300 example_left example_right) =
        Inr [ascii ''[00:01.000] a'', ascii ''[00:02.000] b / c'', ascii ''[00:03.000] d'']"
    unfolding merge_lyrics_eval [OF parse_example_left parse_example_right]
    by (simp add: eval_merge ascii_def)
  note w = merge_one_line_per_timestamp [of 4300 example_left example_right, THEN conjunct1,
      unfolded if_P [OF c]]
  then obtain lines where lines: "fst (merge_lyrics 4300 example_left example_right) = Inr lines"
    and le: "length lines \<le> card (timestamps 4300 example_left) + card (timestamps 4300 example_right)"
    by blast
  have "lines = [ascii ''[00:01.000] a'', ascii ''[00:02.000] b / c'', ascii ''[00:03.000] d'']"
    using lines l by simp
  then have "length lines = 3"
    by simp
  moreover have "length lines \<le> 2 + 2"
    using le by (simp add: ta tb)
  ultimately have "\<exists>lines. fst (merge_lyrics 4300 example_left example_right) = Inr lines
         \<and> length lines = 3 \<and> length lines \<le> 2 + 2"
    using lines by blast
  then show ?thesis
    using ta tb f l by (intro conjI)
qed

section \<open>The example of the module's self-test\<close>

text \<open>
  The two texts of the self-test. The translated text is
  \<open>[00:01.00]\<close> U+4F60 U+597D U+4E16 U+754C, a newline,
  \<open>[00:05.00]\<close> U+8FD9 U+662F U+4E00 U+4E2A U+6D4B U+8BD5.
\<close>

definition example_original :: ustring where
  "example_original =
     ascii ''[00:01.00]Hello world'' @ [NEWLINE] @ ascii ''[00:05.00]This is a test''"

definition example_translated :: ustring where
  "example_translated =
     ascii ''[00:01.00]'' @ [20320, 22909, 19990, 30028] @ [NEWLINE]
     @ ascii ''[00:05.00]'' @ [36825, 26159, 19968, 20010, 27979, 35797]"

lemma parse_example_original:
  "parse_lrc_content lim example_original =
     ([\<lparr>time = 1000, content = ascii ''Hello world''\<rparr>,
       \<lparr>time = 5000, content = ascii ''This is a test''\<rparr>], [])"
  by (simp add: example_original_def eval_parse cong: prod.case_cong_weak bind_weak_cong)

lemma parse_example_translated:
  "parse_lrc_content lim example_translated =
     ([\<lparr>time = 1000, content = [20320, 22909, 19990, 30028]\<rparr>,
       \<lparr>time = 5000, content = [36825, 26159, 19968, 20010, 27979, 35797]\<rparr>], [])"
  by (simp add: example_translated_def eval_parse cong: prod.case_cong_weak bind_weak_cong)

text \<open>
  C4. Merging the two texts of the self-test returns exactly two lines, each the formatted
  time, a space, the original text, \<open>" / "\<close> and the translated text:
  \<open>[00:01.000] Hello world / \<close> U+4F60 U+597D U+4E16 U+754C and
  \<open>[00:05.000] This is a test / \<close> U+8FD9 U+662F U+4E00 U+4E2A U+6D4B U+8BD5; nothing is
  printed and nothing is raised.
\<close>

theorem merge_example:
  "merge_lyrics lim example_original example_translated =
     (Inr [ascii ''[00:01.000] Hello world / '' @ [20320, 22909, 19990, 30028],
           ascii ''[00:05.000] This is a test / '' @ [36825, 26159, 19968, 20010, 27979, 35797]],
      [])
   \<and> (\<exists>t1 t5. format_lrc_time lim 1000 = Inr t1 \<and> format_lrc_time lim 5000 = Inr t5
        \<and> fst (merge_lyrics lim example_original example_translated) =
          Inr [t1 @ ascii '' '' @ ascii ''Hello world'' @ ascii '' / ''
                 @ [20320, 22909, 19990, 30028],
               t5 @ ascii '' '' @ ascii ''This is a test'' @ ascii '' / ''
                 @ [36825, 26159, 19968, 20010, 27979, 35797]])"
proof -
  have m: "merge_lyrics lim example_original example_translated =
     (Inr [ascii ''[00:01.000] Hello world / '' @ [20320, 22909, 19990, 30028],
           ascii ''[00:05.000] This is a test / '' @ [36825, 26159, 19968, 20010, 27979, 35797]],
      [])"
    unfolding merge_lyrics_eval [OF parse_example_original parse_example_translated]
    by (simp add: eval_merge ascii_def)
  have f: "format_lrc_time lim 1000 = Inr (ascii ''[00:01.000]'')"
    "format_lrc_time lim 5000 = Inr (ascii ''[00:05.000]'')"
    by (simp_all add: eval_format replicate_small ascii_def)
  have "fst (merge_lyrics lim example_original example_translated) =
          Inr [ascii ''[00:01.000]'' @ ascii '' '' @ ascii ''Hello world'' @ ascii '' / ''
                 @ [20320, 22909, 19990, 30028],
               ascii ''[00:05.000]'' @ ascii '' '' @ ascii ''This is a test'' @ ascii '' / ''
                 @ [36825, 26159, 19968, 20010, 27979, 35797]]"
    by (simp add: m ascii_def)
  with m f show ?thesis
    by blast
qed

section \<open>Repeated timestamps within one text\<close>

lemma parse_is_sorted_scan:
  "fst (parse_lrc_content lim text) =
     sort_key time (fst (scan_lines lim (py_split NEWLINE (py_strip text))))"
  by (simp add: parse_lrc_content_eq scan_lines_eq physical_lines_def)

text \<open>
  C5. When a timestamp occurs more than once in one text, the text of its last occurrence
  in parse order is the one that the dictionary of \<open>merge_lyrics\<close> keeps for that side:
  the parsed document is the stable sort by time of the entries in parse order, so the
  entries of one timestamp keep their order, and a later entry replaces the earlier one in
  the dictionary.
\<close>

theorem last_occurrence_wins:
  assumes "t \<in> timestamps lim text"
  shows "let raw = fst (scan_lines lim (py_split NEWLINE (py_strip text)));
             doc = fst (parse_lrc_content lim text)
         in doc = sort_key time raw
          \<and> sorted (map time doc)
          \<and> filter (\<lambda>l. time l = t) doc = filter (\<lambda>l. time l = t) raw
          \<and> filter (\<lambda>l. time l = t) raw \<noteq> []
          \<and> dict_get (to_dict doc) t [] = content (last (filter (\<lambda>l. time l = t) raw))"
proof -
  define raw where "raw = fst (scan_lines lim (py_split NEWLINE (py_strip text)))"
  define doc where "doc = fst (parse_lrc_content lim text)"
  have doc: "doc = sort_key time raw"
    unfolding doc_def raw_def by (rule parse_is_sorted_scan)
  have stable: "filter (\<lambda>l. time l = t) doc = filter (\<lambda>l. time l = t) raw"
    unfolding doc by (rule sort_key_stable)
  have mem: "t \<in> time ` set doc"
    using assms by (simp add: timestamps_def doc_def)
  then have ne: "filter (\<lambda>l. time l = t) doc \<noteq> []"
    by (auto simp: filter_empty_conv)
  have "dict_get (to_dict doc) t [] = content (last (filter (\<lambda>l. time l = t) doc))"
    using mem by (simp add: dict_get_to_dict)
  then show ?thesis
    using doc stable ne by (simp add: Let_def raw_def [symmetric] doc_def [symmetric])
qed

definition example_repeated :: ustring where
  "example_repeated =
     ascii ''[00:01.00]first'' @ [NEWLINE] @ ascii ''[00:02.00]other'' @ [NEWLINE]
     @ ascii ''[00:01.00]second''"

lemma scan_example_repeated:
  "scan_lines lim (py_split NEWLINE (py_strip example_repeated)) =
     ([\<lparr>time = 1000, content = ascii ''first''\<rparr>, \<lparr>time = 2000, content = ascii ''other''\<rparr>,
       \<lparr>time = 1000, content = ascii ''second''\<rparr>], [])"
  by (simp add: example_repeated_def eval_parse cong: prod.case_cong_weak bind_weak_cong)

lemma parse_example_repeated:
  "parse_lrc_content lim example_repeated =
     ([\<lparr>time = 1000, content = ascii ''first''\<rparr>, \<lparr>time = 1000, content = ascii ''second''\<rparr>,
       \<lparr>time = 2000, content = ascii ''other''\<rparr>], [])"
  by (simp add: example_repeated_def eval_parse cong: prod.case_cong_weak bind_weak_cong)

lemma parse_empty: "parse_lrc_content lim [] = ([], [])"
  by (simp add: parse_lrc_content_def)

theorem last_occurrence_wins_witness:
  "1000 \<in> timestamps 4300 example_repeated
   \<and> dict_get (to_dict (fst (parse_lrc_content 4300 example_repeated))) 1000 [] = ascii ''second''
   \<and> fst (merge_lyrics 4300 example_repeated []) =
       Inr [ascii ''[00:01.000] second'', ascii ''[00:02.000] other'']"
proof -
  have m: "1000 \<in> timestamps 4300 example_repeated"
    by (simp add: timestamps_def parse_example_repeated)
  note w = last_occurrence_wins [OF m, unfolded Let_def scan_example_repeated fst_conv]
  have d: "dict_get (to_dict (fst (parse_lrc_content 4300 example_repeated))) 1000 [] =
             ascii ''second''"
    using w [THEN conjunct2, THEN conjunct2, THEN conjunct2, THEN conjunct2]
    by (simp add: ascii_def)
  have l: "fst (merge_lyrics 4300 example_repeated []) =
       Inr [ascii ''[00:01.000] second'', ascii ''[00:02.000] other'']"
    unfolding merge_lyrics_eval [OF parse_example_repeated parse_empty]
    by (simp add: eval_merge ascii_def)
  show ?thesis
    using m d l by (intro conjI)
qed

section \<open>The text of a line with several tags\<close>











section \<open>A bracketed timecode without a fraction\<close>

text \<open>The token \<open>[MM:SS]\<close>.\<close>

definition plain_token :: "ustring \<Rightarrow> ustring \<Rightarrow> ustring" where
  "plain_token mm ss = [LBRACKET] @ mm @ [COLON] @ ss @ [RBRACKET]"

lemma findall_skip: "LBRACKET \<notin> set xs \<Longrightarrow> findall_tags (xs @ r) = findall_tags r"
  by (induction xs) (simp_all add: match_tag_not_bracket)

lemma sub_skip: "LBRACKET \<notin> set xs \<Longrightarrow> sub_tags (xs @ r) = xs @ sub_tags r"
  by (induction xs) (simp_all add: match_tag_not_bracket)

lemma digits_no_bracket: "digits d \<Longrightarrow> LBRACKET \<notin> set d"
  using not_decimal_punct by (auto simp: digits_def list_all_iff)

lemma match_plain_token:
  assumes "digits mm" "digits ss"
  shows "match_tag (plain_token mm ss @ rest) = None"
  using digits1_run [OF assms(1), of COLON "ss @ RBRACKET # rest"]
    digits1_run [OF assms(2), of RBRACKET rest]
  by (simp add: match_tag_def plain_token_def not_decimal_punct)

lemma findall_plain_token:
  assumes "digits mm" "digits ss"
  shows "findall_tags (plain_token mm ss @ rest) = findall_tags rest"
proof -
  have "findall_tags (plain_token mm ss @ rest) = findall_tags ((mm @ [COLON] @ ss @ [RBRACKET]) @ rest)"
    using match_plain_token [OF assms, of rest] by (simp add: plain_token_def)
  also have "\<dots> = findall_tags rest"
    using assms by (intro findall_skip) (simp add: digits_no_bracket)
  finally show ?thesis .
qed

lemma sub_plain_token:
  assumes "digits mm" "digits ss"
  shows "sub_tags (plain_token mm ss @ rest) = plain_token mm ss @ sub_tags rest"
proof -
  have "sub_tags (plain_token mm ss @ rest) = LBRACKET # sub_tags ((mm @ [COLON] @ ss @ [RBRACKET]) @ rest)"
    using match_plain_token [OF assms, of rest] by (simp add: plain_token_def)
  also have "sub_tags ((mm @ [COLON] @ ss @ [RBRACKET]) @ rest) = (mm @ [COLON] @ ss @ [RBRACKET]) @ sub_tags rest"
    using assms by (intro sub_skip) (simp add: digits_no_bracket)
  finally show ?thesis by (simp add: plain_token_def)
qed

lemma strip_set_prefix:
  assumes "xs \<noteq> []" "\<not> p (hd xs)" "\<not> p (last xs)"
  shows "strip_set p (xs @ ys) = xs @ rev (dropWhile p (rev ys))"
proof -
  have 1: "dropWhile p (xs @ ys) = xs @ ys"
    using assms(1,2) by (cases xs) simp_all
  have all: "dropWhile p a = [] \<Longrightarrow> dropWhile p (a @ b) = dropWhile p b" for a b
    by (induction a) (simp_all split: if_splits)
  have some: "dropWhile p a \<noteq> [] \<Longrightarrow> dropWhile p (a @ b) = dropWhile p a @ b" for a b
    by (induction a) (auto split: if_splits)
  have 2: "dropWhile p (rev ys @ rev xs) = dropWhile p (rev ys) @ rev xs"
  proof (cases "dropWhile p (rev ys) = []")
    case True
    have "dropWhile p (rev xs) = rev xs"
      using assms(1,3) by (cases xs rule: rev_cases) simp_all
    then show ?thesis
      using all [OF True, of "rev xs"] True by simp
  next
    case False
    then show ?thesis by (rule some)
  qed
  show ?thesis
    by (simp add: strip_set_def 1 2)
qed

lemma plain_token_line:
  assumes "digits mm" "digits ss" "LBRACKET \<notin> set txt"
  shows "findall_tags (py_strip (plain_token mm ss @ txt)) = []"
proof -
  have "is_space c \<Longrightarrow> c \<noteq> LBRACKET \<and> c \<noteq> RBRACKET" for c
    by (auto simp: is_space_def space_chars_def)
  then have "\<not> is_space (hd (plain_token mm ss))" "\<not> is_space (last (plain_token mm ss))"
    by (auto simp: plain_token_def)
  then have "py_strip (plain_token mm ss @ txt) =
               plain_token mm ss @ rev (dropWhile is_space (rev txt))"
    unfolding py_strip_def by (intro strip_set_prefix) (simp_all add: plain_token_def)
  moreover have "LBRACKET \<notin> set (rev (dropWhile is_space (rev txt)))"
    using assms(3) set_dropWhileD [of LBRACKET is_space "rev txt"] by auto
  ultimately show ?thesis
    using findall_plain_token [OF assms(1,2)] findall_no_bracket by simp
qed

lemma parse_plain_token_line:
  assumes "digits mm" "digits ss" "LBRACKET \<notin> set txt" "NEWLINE \<notin> set txt"
  shows "parse_lrc_content lim (plain_token mm ss @ txt) = ([], [])"
proof -
  have "NEWLINE \<notin> set (plain_token mm ss)"
    using assms(1,2) by (auto simp: plain_token_def digits_def list_all_iff is_decimal_ascii)
  then have "NEWLINE \<notin> set (plain_token mm ss @ txt)"
    using assms(4) by simp
  then show ?thesis
    using plain_token_line [OF assms(1-3)]
    by (simp add: parse_single_line line_entries_def line_warnings_def decoded_def refused_def)
qed

lemma parse_lrc_time_plain_token:
  assumes "digits mm" "digits ss" "digits_allowed lim (length mm)" "digits_allowed lim (length ss)"
  shows "parse_lrc_time lim (plain_token mm ss) = Inr (digits_value mm * 60000 + digits_value ss * 1000)"
  using parse_lrc_time_digits(1) [OF digits_digit_string [OF assms(1,3)]
      digits_digit_string [OF assms(2,4)], of True]
  by (simp add: plain_token_def bracketed_def)

lemma found_tag_has_fraction:
  assumes "g \<in> set (findall_tags s)"
  shows "\<exists>d1 d2 d3. digits d1 \<and> digits d2 \<and> digits d3 \<and> g = d1 @ [COLON] @ d2 @ [DOT] @ d3"
  using findall_tags_shape [OF assms] by (simp add: tag_text_def)

text \<open>
  C10. A bracketed timecode without a fraction, \<open>[MM:SS]\<close>, is never taken for a tag by
  \<open>parse_lrc_content\<close>: the pattern does not match it, the scan for tags passes over it and
  the removal of tags leaves it in the text, so a line that has this token and otherwise no
  bracket gives no entry and no warning; every tag that the scan does find has digits, a
  colon, digits, a dot and digits. \<open>parse_lrc_time\<close> itself decodes the token, with 0
  milliseconds.
\<close>

theorem fractionless_timecode_not_a_tag:
  assumes "digits mm" and "digits ss"
  shows "match_tag (plain_token mm ss @ rest) = None
       \<and> findall_tags (plain_token mm ss @ rest) = findall_tags rest
       \<and> sub_tags (plain_token mm ss @ rest) = plain_token mm ss @ sub_tags rest
       \<and> (LBRACKET \<notin> set txt \<and> NEWLINE \<notin> set txt \<longrightarrow>
            parse_lrc_content lim (plain_token mm ss @ txt) = ([], []))
       \<and> (digits_allowed lim (length mm) \<and> digits_allowed lim (length ss) \<longrightarrow>
            parse_lrc_time lim (plain_token mm ss) =
              Inr (digits_value mm * 60000 + digits_value ss * 1000))
       \<and> (\<forall>g\<in>set (findall_tags s).
            \<exists>d1 d2 d3. digits d1 \<and> digits d2 \<and> digits d3 \<and> g = d1 @ [COLON] @ d2 @ [DOT] @ d3)"
proof (intro conjI impI ballI)
  show "match_tag (plain_token mm ss @ rest) = None"
    by (rule match_plain_token [OF assms])
  show "findall_tags (plain_token mm ss @ rest) = findall_tags rest"
    by (rule findall_plain_token [OF assms])
  show "sub_tags (plain_token mm ss @ rest) = plain_token mm ss @ sub_tags rest"
    by (rule sub_plain_token [OF assms])
  show "parse_lrc_content lim (plain_token mm ss @ txt) = ([], [])"
    if "LBRACKET \<notin> set txt \<and> NEWLINE \<notin> set txt"
    using that parse_plain_token_line [OF assms] by simp
  show "parse_lrc_time lim (plain_token mm ss) =
          Inr (digits_value mm * 60000 + digits_value ss * 1000)"
    if "digits_allowed lim (length mm) \<and> digits_allowed lim (length ss)"
    using that parse_lrc_time_plain_token [OF assms] by simp
  show "\<exists>d1 d2 d3. digits d1 \<and> digits d2 \<and> digits d3 \<and> g = d1 @ [COLON] @ d2 @ [DOT] @ d3"
    if "g \<in> set (findall_tags s)" for g
    using that by (rule found_tag_has_fraction)
qed

theorem fractionless_timecode_not_a_tag_witness:
  "digits (ascii ''01'') \<and> digits (ascii ''30'')
   \<and> plain_token (ascii ''01'') (ascii ''30'') = ascii ''[01:30]''
   \<and> findall_tags (ascii ''[01:30]Hello'') = []
   \<and> sub_tags (ascii ''[01:30]Hello'') = ascii ''[01:30]Hello''
   \<and> parse_lrc_content 4300 (ascii ''[01:30]Hello'') = ([], [])
   \<and> parse_lrc_time 4300 (ascii ''[01:30]'') = Inr 90000
   \<and> parse_lrc_content 4300 (ascii ''[00:01.00][01:30]Hi'') =
        ([\<lparr>time = 1000, content = ascii ''[01:30]Hi''\<rparr>], [])"
proof -
  have d: "digits (ascii ''01'')" "digits (ascii ''30'')"
    by (simp_all add: digits_def ascii_def is_decimal_ascii)
  have t: "plain_token (ascii ''01'') (ascii ''30'') = ascii ''[01:30]''"
    by (simp add: plain_token_def ascii_def)
  have h: "LBRACKET \<notin> set (ascii ''Hello'') \<and> NEWLINE \<notin> set (ascii ''Hello'')"
    by (simp add: ascii_def)
  have a: "digits_allowed 4300 (length (ascii ''01'')) \<and> digits_allowed 4300 (length (ascii ''30''))"
    by (simp add: digits_allowed_def ascii_def)
  have v: "digits_value (ascii ''01'') * 60000 + digits_value (ascii ''30'') * 1000 = 90000"
    by (simp add: eval_chars)
  have e: "findall_tags (ascii ''Hello'') = []" "sub_tags (ascii ''Hello'') = ascii ''Hello''"
    by (simp_all add: ascii_def match_tag_def)
  have x: "parse_lrc_content 4300 (ascii ''[00:01.00][01:30]Hi'') =
        ([\<lparr>time = 1000, content = ascii ''[01:30]Hi''\<rparr>], [])"
    by (simp add: eval_parse cong: prod.case_cong_weak bind_weak_cong)
  note w = fractionless_timecode_not_a_tag [OF d, of "ascii ''Hello''" "ascii ''Hello''" 4300 "[]",
      unfolded t]
  have f: "findall_tags (ascii ''[01:30]'' @ ascii ''Hello'') = []"
    using w [THEN conjunct2, THEN conjunct1] e(1) by simp
  have s: "sub_tags (ascii ''[01:30]'' @ ascii ''Hello'') = ascii ''[01:30]'' @ ascii ''Hello''"
    using w [THEN conjunct2, THEN conjunct2, THEN conjunct1] e(2) by simp
  have p: "parse_lrc_content 4300 (ascii ''[01:30]'' @ ascii ''Hello'') = ([], [])"
    using w [THEN conjunct2, THEN conjunct2, THEN conjunct2, THEN conjunct1] h by simp
  have c: "parse_lrc_time 4300 (ascii ''[01:30]'') = Inr 90000"
    using w [THEN conjunct2, THEN conjunct2, THEN conjunct2, THEN conjunct2, THEN conjunct1] a v
    by simp
  have j: "ascii ''[01:30]'' @ ascii ''Hello'' = ascii ''[01:30]Hello''"
    by (simp add: ascii_def)
  show ?thesis
    using d t f s p c x unfolding j by (intro conjI)
qed

section \<open>When decoding fails\<close>










section \<open>Tags that do not decode\<close>

lemma parse_line_no_tag: "findall_tags (py_strip line) = [] \<Longrightarrow> parse_line lim line st = st"
  by (simp add: parse_line_def Let_def)

lemma found_tag_decodes_iff:
  assumes "g \<in> set (findall_tags s)"
  shows "\<exists>d1 d2 d3. digits d1 \<and> digits d2 \<and> digits d3 \<and> g = d1 @ [COLON] @ d2 @ [DOT] @ d3
           \<and> (isl (parse_lrc_time lim g) \<longleftrightarrow>
                \<not> (digits_allowed lim (length d1) \<and> digits_allowed lim (length d2)))"
proof -
  from findall_tags_shape [OF assms] obtain d1 d2 d3
    where d: "digits d1" "digits d2" "digits d3" and g: "g = tag_text d1 d2 d3"
    by blast
  have "isl (parse_lrc_time lim g) \<longleftrightarrow>
          \<not> (digits_allowed lim (length d1) \<and> digits_allowed lim (length d2))"
  proof (cases "digits_allowed lim (length d1) \<and> digits_allowed lim (length d2)")
    case True
    then show ?thesis
      using tag_decode_ok [OF d, of lim] by (simp add: g)
  next
    case False
    then show ?thesis
      using tag_decode_fail [OF d False] by (simp add: g)
  qed
  then show ?thesis
    using d g by (auto simp: tag_text_def)
qed

text \<open>
  C6, as the code has it. \<open>parse_lrc_content\<close> never aborts. Line by line and tag by tag,
  in order, every tag that the pattern finds on a line with a non-empty display text gives
  an entry when it decodes and a printed warning, and no entry, when it does not; the
  entries are returned sorted by time, those of equal time in their order. A tag that the
  pattern finds fails to decode only when its minutes or its seconds have more digits than
  the interpreter's limit allows. A bracketed token that the pattern does not match is not
  a tag: a line without a match changes nothing, so no warning is printed for it.
\<close>

theorem parse_skips_undecodable_tags:
  "parse_lrc_content lim text =
     (sort_key time (concat (map (line_entries lim) (physical_lines text))),
      concat (map (line_warnings lim) (physical_lines text)))
   \<and> sorted (map time (fst (parse_lrc_content lim text)))
   \<and> (\<forall>line. line_entries lim line =
         (if display_text line = [] then []
          else concat (map (\<lambda>g. case parse_lrc_time lim g of
                                   Inr t \<Rightarrow> [\<lparr>time = t, content = display_text line\<rparr>]
                                 | Inl e \<Rightarrow> []) (findall_tags (py_strip line)))))
   \<and> (\<forall>line. line_warnings lim line =
         (if display_text line = [] then []
          else concat (map (\<lambda>g. case parse_lrc_time lim g of
                                   Inr t \<Rightarrow> []
                                 | Inl e \<Rightarrow> [warning g e]) (findall_tags (py_strip line)))))
   \<and> (\<forall>s. \<forall>g\<in>set (findall_tags s).
         \<exists>d1 d2 d3. digits d1 \<and> digits d2 \<and> digits d3 \<and> g = d1 @ [COLON] @ d2 @ [DOT] @ d3
           \<and> (isl (parse_lrc_time lim g) \<longleftrightarrow>
                \<not> (digits_allowed lim (length d1) \<and> digits_allowed lim (length d2))))
   \<and> (\<forall>line st. findall_tags (py_strip line) = [] \<longrightarrow> parse_line lim line st = st)"
proof (intro conjI allI ballI impI)
  show "parse_lrc_content lim text =
     (sort_key time (concat (map (line_entries lim) (physical_lines text))),
      concat (map (line_warnings lim) (physical_lines text)))"
    by (rule parse_lrc_content_eq)
  show "sorted (map time (fst (parse_lrc_content lim text)))"
    by (rule parse_sorted)
  show "line_entries lim line =
         (if display_text line = [] then []
          else concat (map (\<lambda>g. case parse_lrc_time lim g of
                                   Inr t \<Rightarrow> [\<lparr>time = t, content = display_text line\<rparr>]
                                 | Inl e \<Rightarrow> []) (findall_tags (py_strip line))))" for line
    by (simp add: line_entries_def decoded_def)
  show "line_warnings lim line =
         (if display_text line = [] then []
          else concat (map (\<lambda>g. case parse_lrc_time lim g of
                                   Inr t \<Rightarrow> []
                                 | Inl e \<Rightarrow> [warning g e]) (findall_tags (py_strip line))))" for line
    by (simp add: line_warnings_def refused_def)
  show "\<exists>d1 d2 d3. digits d1 \<and> digits d2 \<and> digits d3 \<and> g = d1 @ [COLON] @ d2 @ [DOT] @ d3
           \<and> (isl (parse_lrc_time lim g) \<longleftrightarrow>
                \<not> (digits_allowed lim (length d1) \<and> digits_allowed lim (length d2)))"
    if "g \<in> set (findall_tags s)" for s g
    using that by (rule found_tag_decodes_iff)
  show "parse_line lim line st = st" if "findall_tags (py_strip line) = []" for line st
    using that by (rule parse_line_no_tag)
qed

text \<open>
  C6 as the specification words it fails at a text with the malformed tag \<open>[bad]\<close> among valid tags:
  the entries of the valid tags are returned, but no diagnostic is printed for the
  malformed one; on a line that also has a valid tag it stays in the text of the entry.
\<close>

definition example_bad_tag :: ustring where
  "example_bad_tag =
     ascii ''[00:02.00]second'' @ [NEWLINE] @ ascii ''[bad]lost'' @ [NEWLINE]
     @ ascii ''[00:01.00][bad]first''"

theorem parse_prints_nothing_for_bad_tag:
  "parse_lrc_time 4300 (ascii ''[bad]'') = Inl (ValueError (invalid_format_msg @ ascii ''bad''))
   \<and> parse_lrc_content 4300 example_bad_tag =
       ([\<lparr>time = 1000, content = ascii ''[bad]first''\<rparr>,
         \<lparr>time = 2000, content = ascii ''second''\<rparr>], [])"
  by (simp add: example_bad_tag_def eval_parse cong: prod.case_cong_weak bind_weak_cong)


text \<open>
  A text whose second line has a tag that the pattern finds and that does not decode under
  a digit limit below \<open>n\<close>: \<open>n\<close> nines as minutes, followed on the same line by a valid tag.
\<close>

definition long_tag :: "nat \<Rightarrow> ustring" where
  "long_tag n = tag_text (replicate n 57) (ascii ''60'') (ascii ''00'')"

definition long_tag_line :: "nat \<Rightarrow> ustring" where
  "long_tag_line n = [LBRACKET] @ long_tag n @ [RBRACKET] @ ascii ''[00:02.00]b''"

definition example_undecodable :: "nat \<Rightarrow> ustring" where
  "example_undecodable n =
     ascii ''[00:03.00]c'' @ [NEWLINE] @ long_tag_line n @ [NEWLINE] @ ascii ''[00:01.00]a''"

lemma py_split_cons: "c \<notin> set a \<Longrightarrow> py_split c (a @ c # b) = a # py_split c b"
  by (induction a) simp_all

lemma long_tag_fails:
  assumes "0 < n" "\<not> digits_allowed lim n"
  shows "parse_lrc_time lim (long_tag n) = Inl (ValueError (invalid_format_msg @ long_tag n))"
proof -
  have d: "digits (replicate n 57)"
    using assms(1) by (intro digits_replicate) (simp_all add: is_decimal_ascii)
  show ?thesis
    unfolding long_tag_def
    using assms(2) by (intro tag_decode_fail [OF d digits_60_00]) simp
qed

lemma long_tag_line_parts:
  assumes "0 < n"
  shows "py_strip (long_tag_line n) = long_tag_line n"
    and "findall_tags (long_tag_line n) = [long_tag n, ascii ''00:02.00'']"
    and "display_text (long_tag_line n) = ascii ''b''"
    and "NEWLINE \<notin> set (long_tag_line n)"
proof -
  have d: "digits (replicate n 57)"
    using assms by (intro digits_replicate) (simp_all add: is_decimal_ascii)
  have "long_tag_line n \<noteq> []" "\<not> is_space (hd (long_tag_line n))"
    "\<not> is_space (last (long_tag_line n))"
    by (simp_all add: long_tag_line_def ascii_def is_space_def space_chars_def)
  then show s: "py_strip (long_tag_line n) = long_tag_line n"
    unfolding py_strip_def by (rule strip_set_id)
  have f: "findall_tags (ascii ''[00:02.00]b'') = [ascii ''00:02.00'']"
    and u: "sub_tags (ascii ''[00:02.00]b'') = ascii ''b''"
    by (simp_all add: eval_parse cong: prod.case_cong_weak bind_weak_cong)
  show "findall_tags (long_tag_line n) = [long_tag n, ascii ''00:02.00'']"
    unfolding long_tag_line_def long_tag_def
    by (simp only: findall_tag_first(1) [OF d digits_60_00] f)
  have "sub_tags (long_tag_line n) = ascii ''b''"
    unfolding long_tag_line_def long_tag_def
    by (simp only: findall_tag_first(2) [OF d digits_60_00] u)
  then show "display_text (long_tag_line n) = ascii ''b''"
    unfolding display_text_def s
    by (simp add: py_strip_def strip_set_def ascii_def is_space_def space_chars_def)
  show "NEWLINE \<notin> set (long_tag_line n)"
    by (auto simp: long_tag_line_def long_tag_def tag_text_def ascii_def)
qed

lemma long_tag_line_entries:
  assumes "0 < n" "\<not> digits_allowed lim n"
  shows "line_entries lim (long_tag_line n) = [\<lparr>time = 2000, content = ascii ''b''\<rparr>]"
    and "line_warnings lim (long_tag_line n) =
           [warning (long_tag n) (ValueError (invalid_format_msg @ long_tag n))]"
proof -
  have ok: "parse_lrc_time lim (ascii ''00:02.00'') = Inr 2000"
    by (simp add: eval_parse cong: prod.case_cong_weak bind_weak_cong)
  have b: "ascii ''b'' \<noteq> []"
    by (simp add: ascii_def)
  show "line_entries lim (long_tag_line n) = [\<lparr>time = 2000, content = ascii ''b''\<rparr>]"
    unfolding line_entries_def decoded_def long_tag_line_parts [OF assms(1)]
    using b by (simp add: long_tag_fails [OF assms] ok)
  show "line_warnings lim (long_tag_line n) =
           [warning (long_tag n) (ValueError (invalid_format_msg @ long_tag n))]"
    unfolding line_warnings_def refused_def long_tag_line_parts [OF assms(1)]
    using b by (simp add: long_tag_fails [OF assms] ok)
qed

lemma plain_line_entries:
  "line_entries lim (ascii ''[00:03.00]c'') = [\<lparr>time = 3000, content = ascii ''c''\<rparr>]"
  "line_warnings lim (ascii ''[00:03.00]c'') = []"
  "line_entries lim (ascii ''[00:01.00]a'') = [\<lparr>time = 1000, content = ascii ''a''\<rparr>]"
  "line_warnings lim (ascii ''[00:01.00]a'') = []"
  by (simp_all add: line_entries_def line_warnings_def decoded_def refused_def display_text_def
        eval_parse cong: prod.case_cong_weak bind_weak_cong)

lemma example_undecodable_lines:
  assumes "0 < n"
  shows "physical_lines (example_undecodable n) =
           [ascii ''[00:03.00]c'', long_tag_line n, ascii ''[00:01.00]a'']"
proof -
  have "example_undecodable n \<noteq> []" "\<not> is_space (hd (example_undecodable n))"
    "\<not> is_space (last (example_undecodable n))"
    by (simp_all add: example_undecodable_def ascii_def is_space_def space_chars_def)
  then have s: "py_strip (example_undecodable n) = example_undecodable n"
    unfolding py_strip_def by (rule strip_set_id)
  have 1: "NEWLINE \<notin> set (ascii ''[00:03.00]c'')" and 3: "NEWLINE \<notin> set (ascii ''[00:01.00]a'')"
    by (simp_all add: ascii_def)
  note 2 = long_tag_line_parts(4) [OF assms]
  have "py_split NEWLINE (example_undecodable n) =
          ascii ''[00:03.00]c'' # py_split NEWLINE (long_tag_line n @ NEWLINE # ascii ''[00:01.00]a'')"
    unfolding example_undecodable_def using py_split_cons [OF 1] by simp
  also have "py_split NEWLINE (long_tag_line n @ NEWLINE # ascii ''[00:01.00]a'') =
          long_tag_line n # py_split NEWLINE (ascii ''[00:01.00]a'')"
    by (rule py_split_cons [OF 2])
  also have "py_split NEWLINE (ascii ''[00:01.00]a'') = [ascii ''[00:01.00]a'']"
    by (rule py_split_single [OF 3])
  finally show ?thesis
    by (simp add: physical_lines_def s)
qed

theorem parse_skips_undecodable_tags_witness:
  "parse_lrc_time 4300 (long_tag 4301) = Inl (ValueError (invalid_format_msg @ long_tag 4301))
   \<and> parse_lrc_content 4300 (example_undecodable 4301) =
       ([\<lparr>time = 1000, content = ascii ''a''\<rparr>, \<lparr>time = 2000, content = ascii ''b''\<rparr>,
         \<lparr>time = 3000, content = ascii ''c''\<rparr>],
        [warning (long_tag 4301) (ValueError (invalid_format_msg @ long_tag 4301))])
   \<and> parse_line 4300 (ascii ''[bad]lost'') ([], []) = ([], [])"
proof -
  have n: "(0::nat) < 4301" and l: "\<not> digits_allowed 4300 4301"
    by (simp_all add: digits_allowed_def)
  note t = parse_skips_undecodable_tags [of 4300 "example_undecodable 4301"]
  have nt: "findall_tags (py_strip (ascii ''[bad]lost'')) = []"
    by (simp add: eval_parse cong: prod.case_cong_weak bind_weak_cong)
  have "parse_lrc_content 4300 (example_undecodable 4301) =
       ([\<lparr>time = 1000, content = ascii ''a''\<rparr>, \<lparr>time = 2000, content = ascii ''b''\<rparr>,
         \<lparr>time = 3000, content = ascii ''c''\<rparr>],
        [warning (long_tag 4301) (ValueError (invalid_format_msg @ long_tag 4301))])"
    unfolding t [THEN conjunct1] example_undecodable_lines [OF n]
    by (simp add: plain_line_entries long_tag_line_entries [OF n l])
  moreover have "parse_line 4300 (ascii ''[bad]lost'') ([], []) = ([], [])"
    using t nt by blast
  ultimately show ?thesis
    using long_tag_fails [OF n l] by (intro conjI)
qed

section \<open>When the merge returns\<close>

text \<open>The text that one side has at a timestamp: \<open>dict.get(time, "")\<close> on its dictionary.\<close>

definition text_at :: "nat \<Rightarrow> ustring \<Rightarrow> int \<Rightarrow> ustring" where
  "text_at lim text t = dict_get (to_dict (fst (parse_lrc_content lim text))) t []"

lemma text_at_nonempty: "text_at lim text t \<noteq> [] \<longleftrightarrow> t \<in> timestamps lim text"
  unfolding text_at_def timestamps_def
  by (rule dict_get_nonempty) (rule parse_content_nonempty)

lemma merge_blank:
  assumes "list_all is_space a" "list_all is_space b"
  shows "merge_lyrics lim a b = (Inr [], [])"
  by (simp add: merge_lyrics_def parse_blank [OF assms(1)] parse_blank [OF assms(2)]
        to_dict_def)

lemma merge_lines_sides:
  assumes "fst (merge_lyrics lim a b) = Inr lines"
  shows "list_all2 (\<lambda>t line. \<exists>f. format_lrc_time lim t = Inr f
            \<and> line = (if t \<in> timestamps lim a \<and> t \<in> timestamps lim b
                      then f @ ascii '' '' @ text_at lim a t @ ascii '' / '' @ text_at lim b t
                      else if t \<in> timestamps lim a then f @ ascii '' '' @ text_at lim a t
                      else f @ ascii '' '' @ text_at lim b t))
           (sorted_list_of_set (timestamps lim a \<union> timestamps lim b)) lines"
proof -
  let ?ts = "sorted_list_of_set (timestamps lim a \<union> timestamps lim b)"
  let ?d1 = "to_dict (fst (parse_lrc_content lim a))"
  let ?d2 = "to_dict (fst (parse_lrc_content lim b))"
  have all: "\<forall>t\<in>timestamps lim a \<union> timestamps lim b. formattable lim t"
  proof (rule ccontr)
    assume "\<not> ?thesis"
    then have "fst (merge_lyrics lim a b) = Inl (ValueError (int_str_limit_msg lim))"
      by (simp add: merge_lyrics_result)
    with assms show False by simp
  qed
  then have lines: "lines = map (line_of ?d1 ?d2) ?ts"
    using assms by (simp add: merge_lyrics_result)
  have set_ts: "set ?ts = timestamps lim a \<union> timestamps lim b"
    using finite_timestamps by simp
  show ?thesis
    unfolding lines list_all2_map2
  proof (rule list_all2_all_nthI, simp, goal_cases)
    case (1 n)
    let ?t = "?ts ! n"
    have "?t \<in> set ?ts"
      using 1 by (intro nth_mem)
    then have f: "format_lrc_time lim ?t = Inr (time_text ?t)"
      using all set_ts by (simp add: format_lrc_time_eq)
    have "line_of ?d1 ?d2 ?t =
            (if ?t \<in> timestamps lim a \<and> ?t \<in> timestamps lim b
             then time_text ?t @ ascii '' '' @ text_at lim a ?t @ ascii '' / '' @ text_at lim b ?t
             else if ?t \<in> timestamps lim a then time_text ?t @ ascii '' '' @ text_at lim a ?t
             else time_text ?t @ ascii '' '' @ text_at lim b ?t)"
      using text_at_nonempty [of lim a ?t] text_at_nonempty [of lim b ?t]
      by (simp add: line_of_def text_at_def)
    with f show ?case by simp
  qed
qed


lemma timestamps_formattable:
  assumes "lim = 0 \<or> (\<forall>t\<in>timestamps lim a \<union> timestamps lim b. t div 60000 < 10 ^ 640)"
  shows "\<forall>t\<in>timestamps lim a \<union> timestamps lim b. formattable lim t"
proof
  fix t
  assume t: "t \<in> timestamps lim a \<union> timestamps lim b"
  then have nonneg: "0 \<le> t"
    using timestamps_nonneg by blast
  from assms show "formattable lim t"
  proof
    assume "lim = 0"
    then show ?thesis by (simp add: formattable_unlimited)
  next
    assume "\<forall>t\<in>timestamps lim a \<union> timestamps lim b. t div 60000 < 10 ^ 640"
    then have "t div 60000 < 10 ^ 640" using t by (rule bspec)
    from formattable_below [OF nonneg this] show ?thesis
      by simp
  qed
qed

text \<open>
  C9, as the code has it. A text that is empty or all white space parses to the empty
  document, and two such texts merge to the empty sequence. For every pair of texts,
  \<open>merge_lyrics\<close> returns exactly when every timestamp of the two texts can be formatted,
  which is always so when the interpreter's digit limit is off or the minutes of all
  timestamps are below 10 ^ 640; otherwise it raises the interpreter's \<open>ValueError\<close>. When
  it returns, the line of a timestamp that only one side has is the formatted time, a
  space and that side's text: an absent side is no failure.
\<close>

theorem merge_returns_iff_formattable:
  "(list_all is_space a \<longrightarrow> parse_lrc_content lim a = ([], []))
   \<and> (list_all is_space a \<and> list_all is_space b \<longrightarrow> merge_lyrics lim a b = (Inr [], []))
   \<and> (if \<forall>t\<in>timestamps lim a \<union> timestamps lim b. \<not> isl (format_lrc_time lim t)
       then \<exists>lines. fst (merge_lyrics lim a b) = Inr lines
              \<and> list_all2 (\<lambda>t line. \<exists>f. format_lrc_time lim t = Inr f
                    \<and> line = (if t \<in> timestamps lim a \<and> t \<in> timestamps lim b
                              then f @ ascii '' '' @ text_at lim a t @ ascii '' / '' @ text_at lim b t
                              else if t \<in> timestamps lim a then f @ ascii '' '' @ text_at lim a t
                              else f @ ascii '' '' @ text_at lim b t))
                   (sorted_list_of_set (timestamps lim a \<union> timestamps lim b)) lines
       else fst (merge_lyrics lim a b) = Inl (ValueError (int_str_limit_msg lim)))
   \<and> (lim = 0 \<or> (\<forall>t\<in>timestamps lim a \<union> timestamps lim b. t div 60000 < 10 ^ 640) \<longrightarrow>
        (\<exists>lines. fst (merge_lyrics lim a b) = Inr lines))
   \<and> (\<forall>t. text_at lim a t \<noteq> [] \<longleftrightarrow> t \<in> timestamps lim a)"
proof (intro conjI impI allI)
  show "parse_lrc_content lim a = ([], [])" if "list_all is_space a"
    using that by (rule parse_blank)
  show "merge_lyrics lim a b = (Inr [], [])" if "list_all is_space a \<and> list_all is_space b"
    using that by (intro merge_blank) simp_all
  have cond: "(\<forall>t\<in>timestamps lim a \<union> timestamps lim b. \<not> isl (format_lrc_time lim t))
           \<longleftrightarrow> (\<forall>t\<in>timestamps lim a \<union> timestamps lim b. formattable lim t)"
    by (simp add: format_isl)
  show "if \<forall>t\<in>timestamps lim a \<union> timestamps lim b. \<not> isl (format_lrc_time lim t)
       then \<exists>lines. fst (merge_lyrics lim a b) = Inr lines
              \<and> list_all2 (\<lambda>t line. \<exists>f. format_lrc_time lim t = Inr f
                    \<and> line = (if t \<in> timestamps lim a \<and> t \<in> timestamps lim b
                              then f @ ascii '' '' @ text_at lim a t @ ascii '' / '' @ text_at lim b t
                              else if t \<in> timestamps lim a then f @ ascii '' '' @ text_at lim a t
                              else f @ ascii '' '' @ text_at lim b t))
                   (sorted_list_of_set (timestamps lim a \<union> timestamps lim b)) lines
       else fst (merge_lyrics lim a b) = Inl (ValueError (int_str_limit_msg lim))"
  proof (cases "\<forall>t\<in>timestamps lim a \<union> timestamps lim b. formattable lim t")
    case True
    then obtain lines where l: "fst (merge_lyrics lim a b) = Inr lines"
      by (simp add: merge_lyrics_result)
    show ?thesis
      unfolding cond if_P [OF True]
      using l merge_lines_sides [OF l] by (intro exI [of _ lines] conjI)
  next
    case False
    then have "fst (merge_lyrics lim a b) = Inl (ValueError (int_str_limit_msg lim))"
      by (simp add: merge_lyrics_result)
    then show ?thesis
      unfolding cond if_not_P [OF False] .
  qed
  show "\<exists>lines. fst (merge_lyrics lim a b) = Inr lines"
    if "lim = 0 \<or> (\<forall>t\<in>timestamps lim a \<union> timestamps lim b. t div 60000 < 10 ^ 640)"
    using timestamps_formattable [OF that] by (simp add: merge_lyrics_result)
  show "text_at lim a t \<noteq> [] \<longleftrightarrow> t \<in> timestamps lim a" for t
    by (rule text_at_nonempty)
qed

text \<open>
  C9 as the specification words it fails under the default limit of 4300 digits at a blank original
  and the translated text \<open>[\<close>, 4300 nines, \<open>:60.00]x\<close>: both texts parse, and
  \<open>merge_lyrics\<close> raises.
\<close>

theorem merge_raises_for_huge_minutes:
  "parse_lrc_content 4300 (ascii ''   '') = ([], [])
   \<and> snd (parse_lrc_content 4300 (nines_line 4300)) = []
   \<and> map content (fst (parse_lrc_content 4300 (nines_line 4300))) = [ascii ''x'']
   \<and> merge_lyrics 4300 (ascii ''   '') (nines_line 4300) =
       (Inl (ValueError (ascii ''Exceeds the limit (4300 digits) for integer string conversion; use sys.set_int_max_str_digits() to increase the limit'')), [])"
proof -
  have z: "0 < (4300::nat)"
    by simp
  have a: "digits_allowed 4300 4300" "\<not> digits_allowed 4300 (Suc 4300)"
    by (simp_all add: digits_allowed_def)
  have b: "list_all is_space (ascii ''   '')"
    by (simp add: ascii_def is_space_def space_chars_def)
  note p = parse_nines_line [OF z a(1)]
  have 1: "snd (parse_lrc_content 4300 (nines_line 4300)) = []"
    and 2: "map content (fst (parse_lrc_content 4300 (nines_line 4300))) = [ascii ''x'']"
    by (simp_all only: p fst_conv snd_conv list.map lyric.select_convs)
  note r = merge_nines_raises(2) [OF z a b, unfolded limit_msg_4300]
  show ?thesis
    using parse_blank [OF b, of 4300] 1 2 r by (intro conjI)
qed

text \<open>
  Instances: a text of white space and a line break, and the one-sided merge of the
  self-test.
\<close>

definition example_blank :: ustring where
  "example_blank = ascii ''   '' @ [NEWLINE] @ ascii ''  ''"

theorem merge_returns_iff_formattable_witness:
  "list_all is_space example_blank
   \<and> parse_lrc_content 4300 example_blank = ([], [])
   \<and> merge_lyrics 4300 [] example_blank = (Inr [], [])
   \<and> timestamps 4300 (ascii ''[00:02.00]Only original'') = {2000}
   \<and> merge_lyrics 4300 (ascii ''[00:02.00]Only original'') [] =
       (Inr [ascii ''[00:02.000] Only original''], [])
   \<and> (\<exists>lines. fst (merge_lyrics 4300 (ascii ''[00:02.00]Only original'') []) = Inr lines)"
proof -
  have b: "list_all is_space example_blank"
    by (simp add: example_blank_def ascii_def is_space_def space_chars_def)
  have e: "list_all is_space []"
    by simp
  note t = merge_returns_iff_formattable [of "[]" 4300 example_blank]
  note u = merge_returns_iff_formattable [of example_blank 4300 "[]"]
  have 1: "parse_lrc_content 4300 example_blank = ([], [])"
    by (rule u [THEN conjunct1, THEN mp, OF b])
  have 2: "merge_lyrics 4300 [] example_blank = (Inr [], [])"
    by (rule t [THEN conjunct2, THEN conjunct1, THEN mp, OF conjI [OF e b]])
  have p: "parse_lrc_content 4300 (ascii ''[00:02.00]Only original'') =
             ([\<lparr>time = 2000, content = ascii ''Only original''\<rparr>], [])"
    by (simp add: eval_parse cong: prod.case_cong_weak bind_weak_cong)
  have q: "parse_lrc_content 4300 [] = ([], [])"
    by (rule parse_blank [OF e])
  have 3: "timestamps 4300 (ascii ''[00:02.00]Only original'') = {2000}"
    by (simp add: timestamps_def p)
  have 4: "merge_lyrics 4300 (ascii ''[00:02.00]Only original'') [] =
       (Inr [ascii ''[00:02.000] Only original''], [])"
    unfolding merge_lyrics_eval [OF p q]
    by (simp add: eval_merge ascii_def)
  then have 5: "\<exists>lines. fst (merge_lyrics 4300 (ascii ''[00:02.00]Only original'') []) = Inr lines"
    by simp
  show ?thesis
    using b 1 2 3 4 5 by (intro conjI)
qed

end
